theory Spec2Isabelle
  imports Complex_Main
begin

section \<open>Scalars, vectors and the primitive functions of the field library\<close>

text \<open>
  The class \<open>isoAdvection\<close> (isoAdvection.H, isoAdvection.C) advances a volume
  fraction field by one time step. Its \<open>scalar\<close> is modelled by the real numbers, so
  every statement below is about exact arithmetic; rounding is outside the model.
  A \<open>label\<close> that indexes a list is a natural number, a cell status is an integer.

  The scalar helpers \<open>mag\<close>, \<open>sign\<close>, \<open>pos0\<close>, \<open>neg0\<close> and the
  constant \<open>SMALL\<close> belong to the OpenFOAM library the class is compiled against:
  \<open>pos0 s\<close> is 1 for \<open>s \<ge> 0\<close> and 0 otherwise, \<open>neg0 s\<close> is 1 for
  \<open>s \<le> 0\<close> and 0 otherwise, \<open>sign s\<close> is 1 for \<open>s \<ge> 0\<close> and -1
  otherwise, and \<open>SMALL\<close> is \<open>1e-15\<close> in double precision.
\<close>

type_synonym scalar = real

type_synonym label = nat

definition SMALL :: scalar where
  "SMALL = 1 / 10 ^ 15"

definition mag :: "scalar \<Rightarrow> scalar" where
  "mag s = \<bar>s\<bar>"

definition sign :: "scalar \<Rightarrow> scalar" where
  "sign s = (if s \<ge> 0 then 1 else - 1)"

definition pos0 :: "scalar \<Rightarrow> scalar" where
  "pos0 s = (if s \<ge> 0 then 1 else 0)"

definition neg0 :: "scalar \<Rightarrow> scalar" where
  "neg0 s = (if s \<le> 0 then 1 else 0)"

type_synonym vector = "scalar \<times> scalar \<times> scalar"

definition vzero :: vector where
  "vzero = (0, 0, 0)"

definition vmag :: "vector \<Rightarrow> scalar" where
  "vmag v = (case v of (x, y, z) \<Rightarrow> sqrt (x * x + y * y + z * z))"

definition vscale :: "scalar \<Rightarrow> vector \<Rightarrow> vector" where
  "vscale s v = (case v of (x, y, z) \<Rightarrow> (s * x, s * y, s * z))"

text \<open>
  \<open>vdiv\<close> is the vector operator \<open>/=\<close> by a scalar. A division of a vector
  by zero has no value in the reals; the model writes that outcome as \<open>None\<close>, and
  \<open>Some\<close> carries the quotient of a division by a nonzero denominator.
\<close>

definition vdiv :: "vector \<Rightarrow> scalar \<Rightarrow> vector option" where
  "vdiv v s = (if s = 0 then None else Some (vscale (1 / s) v))"


section \<open>The surface cell classifier\<close>

text \<open>
  \<^verbatim>\<open>bool isASurfaceCell(const label celli) const
  { return (surfCellTol_ < alpha1In_[celli] && alpha1In_[celli] < 1 - surfCellTol_); }\<close>
  The member function reads the tolerance \<open>surfCellTol_\<close> and the internal field
  \<open>alpha1In_\<close> of the object and returns a truth value; it is \<open>const\<close>.
\<close>

definition isASurfaceCell :: "scalar \<Rightarrow> scalar list \<Rightarrow> label \<Rightarrow> bool" where
  "isASurfaceCell sTol alphaIn celli =
     (sTol < alphaIn ! celli \<and> alphaIn ! celli < 1 - sTol)"


section \<open>The non-conservative post-pass\<close>

text \<open>
  \<open>applyBruteForceBounding\<close> looks \<open>snapTol\<close> (default 0) and \<open>clip\<close>
  (default true) up in the controls dictionary. An entry of the dictionary is an
  option: \<open>None\<close> when the user gave none. The entries \<open>nAlphaBounds\<close>,
  \<open>isoFaceTol\<close> and \<open>surfCellTol\<close> are read by the constructor. Field expressions act on every cell, so
  the snap and the clip are maps over the internal field.
\<close>

record dictionary =
  nAlphaBoundsEntry :: "int option"
  isoFaceTolEntry :: "scalar option"
  surfCellTolEntry :: "scalar option"
  snapTol :: "scalar option"
  clip :: "bool option"

definition lookupOrDefault :: "'a option \<Rightarrow> 'a \<Rightarrow> 'a" where
  "lookupOrDefault entry dflt = (case entry of None \<Rightarrow> dflt | Some v \<Rightarrow> v)"

definition snapValue :: "scalar \<Rightarrow> scalar \<Rightarrow> scalar" where
  "snapValue snapAlphaTol a =
     a * pos0 (a - snapAlphaTol) * neg0 (a - (1 - snapAlphaTol))
       + pos0 (a - (1 - snapAlphaTol))"

definition snapStep :: "dictionary \<Rightarrow> scalar list \<Rightarrow> scalar list" where
  "snapStep dict alpha1 =
     (let snapAlphaTol = lookupOrDefault (snapTol dict) 0
      in if snapAlphaTol > 0 then map (snapValue snapAlphaTol) alpha1 else alpha1)"

definition clipStep :: "dictionary \<Rightarrow> scalar list \<Rightarrow> scalar list" where
  "clipStep dict alpha1 =
     (if lookupOrDefault (clip dict) True
      then map (\<lambda>a. min 1 (max 0 a)) alpha1 else alpha1)"

definition applyBruteForceBounding :: "dictionary \<Rightarrow> scalar list \<Rightarrow> scalar list" where
  "applyBruteForceBounding dict alpha1 = clipStep dict (snapStep dict alpha1)"


section \<open>The cutting engine and the isoface accessors\<close>

text \<open>
  The cell cutting object \<open>isoCutCell_\<close> is an external collaborator. A call of
  \<open>vofCutCell(celli, alpha1In_[celli], isoFaceTol_, maxIter)\<close> returns the cell
  status (-1 below, 0 cut, 1 above) and leaves the isoface of the cell in the object,
  where \<open>isoFaceArea()\<close>, \<open>isoFaceCentre()\<close> and \<open>isoValue()\<close> read it. The
  model takes the engine as a parameter: a function from the arguments of the call to
  the status and the isoface data the object holds after the call.
\<close>

record cutResult =
  cellStatus :: int
  isoValue :: scalar
  isoFaceCentre :: vector
  isoFaceArea :: vector

type_synonym cutEngine = "label \<Rightarrow> scalar \<Rightarrow> scalar \<Rightarrow> nat \<Rightarrow> cutResult"

text \<open>
  \<^verbatim>\<open>bool cellIsCut(const label celli)
  { label maxIter = 100;
    label cellStatus = isoCutCell_.vofCutCell(celli, alpha1In_[celli], isoFaceTol_, maxIter);
    return cellStatus == 0 ? true : false; }\<close>
  The accessors call \<open>cellIsCut\<close> and then read the object, so each is modelled on
  the result of that one call.
\<close>

definition cutCell :: "cutEngine \<Rightarrow> scalar \<Rightarrow> scalar list \<Rightarrow> label \<Rightarrow> cutResult" where
  "cutCell vofCutCell cutTol alphaIn celli =
     vofCutCell celli (alphaIn ! celli) cutTol 100"

definition cellIsCut :: "cutEngine \<Rightarrow> scalar \<Rightarrow> scalar list \<Rightarrow> label \<Rightarrow> bool" where
  "cellIsCut vofCutCell cutTol alphaIn celli =
     (cellStatus (cutCell vofCutCell cutTol alphaIn celli) = 0)"

text \<open>
  The unit normal of the isoface, in \<open>getNormal\<close> and in \<open>timeIntegratedFlux\<close>:
  \<^verbatim>\<open>vector n0(isoCutCell_.isoFaceArea()); n0 /= (mag(n0));\<close>
\<close>

definition unitNormal :: "vector \<Rightarrow> vector option" where
  "unitNormal n0 = vdiv n0 (vmag n0)"

definition getNormal :: "cutEngine \<Rightarrow> scalar \<Rightarrow> scalar list \<Rightarrow> label \<Rightarrow> vector option" where
  "getNormal vofCutCell cutTol alphaIn celli =
     (if cellIsCut vofCutCell cutTol alphaIn celli
      then unitNormal (isoFaceArea (cutCell vofCutCell cutTol alphaIn celli))
      else Some vzero)"

definition getSurfaceArea :: "cutEngine \<Rightarrow> scalar \<Rightarrow> scalar list \<Rightarrow> label \<Rightarrow> vector" where
  "getSurfaceArea vofCutCell cutTol alphaIn celli =
     (if cellIsCut vofCutCell cutTol alphaIn celli
      then isoFaceArea (cutCell vofCutCell cutTol alphaIn celli)
      else vzero)"

definition getIsoFaceCentre :: "cutEngine \<Rightarrow> scalar \<Rightarrow> scalar list \<Rightarrow> label \<Rightarrow> vector" where
  "getIsoFaceCentre vofCutCell cutTol alphaIn celli =
     (if cellIsCut vofCutCell cutTol alphaIn celli
      then isoFaceCentre (cutCell vofCutCell cutTol alphaIn celli)
      else vzero)"


section \<open>Mesh, fields and the state of the object\<close>

text \<open>
  The mesh is read-only. Faces are numbered with the internal faces first;
  \<open>faceOwner\<close> has an entry for every face, \<open>faceNeighbour\<close> for every
  internal face. \<open>cells\<close> gives the faces of each cell, \<open>cellCells\<close> the
  cells that share a face with it. A boundary patch is a range of faces
  (\<open>pstart\<close>, \<open>psize\<close>); \<open>patchID\<close> maps a boundary face, counted from
  the first boundary face, to its patch.
\<close>

record patch =
  pstart :: label
  psize :: nat
  isProcessor :: bool

record fvMesh =
  cells :: "label list list"
  faceOwner :: "label list"
  faceNeighbour :: "label list"
  cellCells :: "label list list"
  cellVolumes :: "scalar list"
  nInternalFaces :: nat
  patchID :: "label list"
  boundaryMesh :: "patch list"
  topoChanging :: bool

definition isInternalFace :: "fvMesh \<Rightarrow> label \<Rightarrow> bool" where
  "isInternalFace mesh facei = (facei < nInternalFaces mesh)"

text \<open>
  What a time step reads and never writes: the flux field \<open>phi_\<close>, the time step,
  the controls read by the constructor, and, for a distributed run, the processor
  patches and what the other processes contribute. \<open>received k patchi\<close> is the
  pair of lists (\<open>faceIDs\<close>, \<open>nbrdVfs\<close>) that arrives on patch \<open>patchi\<close> in
  the \<open>k\<close>-th exchange of the run. \<open>alphaNewElsewhere\<close> holds, for each of
  the other processes, the field \<open>alphaNew\<close> that process computes at the entry of
  \<open>limitFluxes\<close>; the global reductions \<open>gMax\<close> and \<open>gMin\<close> range over
  these fields as well.
\<close>

record controls =
  phi :: "scalar list"
  deltaT :: scalar
  nAlphaBounds :: int
  surfCellTol :: scalar
  isoFaceTol :: scalar
  parRun :: bool
  procPatchLabels :: "label list"
  received :: "nat \<Rightarrow> label \<Rightarrow> label list \<times> scalar list"
  alphaNewElsewhere :: "scalar list list"


text \<open>
  Modelled from the spec: \<open>faceValue\<close> and \<open>setFaceValue\<close> are declared in
  isoAdvection.H and defined in isoAdvectionTemplates.C, which is not among the
  sources. The spec gives a surface field one scalar per face, internal and boundary
  alike, so a surface field is a list indexed by the face label, \<open>faceValue\<close> reads
  the entry of the face and \<open>setFaceValue\<close> writes it. The value on face
  \<open>patchFacei\<close> of the boundary field of patch \<open>patchi\<close> is the entry
  \<open>pstart + patchFacei\<close>.
\<close>

definition faceValue :: "scalar list \<Rightarrow> label \<Rightarrow> scalar" where
  "faceValue f facei = f ! facei"

definition setFaceValue :: "scalar list \<Rightarrow> label \<Rightarrow> scalar \<Rightarrow> scalar list" where
  "setFaceValue f facei v = f[facei := v]"

text \<open>
  The log is not a member of the class: it records, in order, each call of
  \<open>boundFromAbove\<close> from \<open>limitFluxes\<close> (for the upper or the lower bound), each
  merge of corrected faces into \<open>dVf_\<close> and each call of \<open>syncProcPatches\<close>.
  \<open>nSync\<close> counts the exchanges and \<open>sent\<close> collects the messages posted to the
  neighbours (patch, face labels, values).
\<close>

datatype event = BoundAbove | BoundBelow | Merged | Synced

text \<open>
  \<open>cellIsBounded_\<close> and \<open>checkBounding_\<close> are dynamic lists of truth values.
  The constructor builds them with a capacity,
  \<^verbatim>\<open>cellIsBounded_(mesh_.nCells()), checkBounding_(mesh_.nCells()),\<close>
  as it builds \<open>surfCells_\<close>, \<open>bsFaces_\<close> and \<open>procPatchLabels_\<close>, which
  the class fills by \<open>append\<close> from empty: the storage is reserved, its content is
  not set, and the size of the list is 0. The class writes and reads the flags by
  index (\<open>checkBounding_[celli] = true\<close>), which reaches the reserved storage; the
  library compares an index with the size in a debug build only. The state therefore
  holds the storage of each list and its size. \<open>resize\<close> sets the size and extends
  the storage where it is too short, and the assignment of a value to the list
  (\<open>checkBounding_ = false\<close>) writes the entries below the size and no other.
\<close>

definition resizeList :: "nat \<Rightarrow> 'a \<Rightarrow> 'a list \<Rightarrow> 'a list" where
  "resizeList n fresh xs = xs @ replicate (n - length xs) fresh"

definition assignList :: "nat \<Rightarrow> 'a \<Rightarrow> 'a list \<Rightarrow> 'a list" where
  "assignList n v xs = map (\<lambda>i. if i < n then v else xs ! i) [0..<length xs]"

record isoAdvection =
  alpha1In :: "scalar list"
  dVf :: "scalar list"
  cellIsBounded :: "bool list"
  cellIsBoundedSize :: nat
  checkBounding :: "bool list"
  checkBoundingSize :: nat
  surfCells :: "label list"
  bsFaces :: "(label \<times> label) list"
  surfaceCellFacesOnProcPatches :: "label list list"
  nSync :: nat
  sent :: "(label \<times> label list \<times> scalar list) list"
  log :: "event list"


section \<open>Downwind faces and net flux\<close>

text \<open>
  \<^verbatim>\<open>forAll(c, fi) { facei = c[fi]; phi = faceValue(phi_, facei);
    if (own[facei] == celli) { if (phi > 10*SMALL) downwindFaces.append(facei); }
    else if (phi < -10*SMALL) downwindFaces.append(facei); }\<close>
\<close>

definition isDownwindFace :: "fvMesh \<Rightarrow> scalar list \<Rightarrow> label \<Rightarrow> label \<Rightarrow> bool" where
  "isDownwindFace mesh phis celli facei =
     (if faceOwner mesh ! facei = celli
      then faceValue phis facei > 10 * SMALL
      else faceValue phis facei < - (10 * SMALL))"

definition setDownwindFaces :: "fvMesh \<Rightarrow> scalar list \<Rightarrow> label \<Rightarrow> label list" where
  "setDownwindFaces mesh phis celli = filter (isDownwindFace mesh phis celli) (cells mesh ! celli)"

text \<open>
  \<^verbatim>\<open>scalar dV = 0; forAll(c, fi) { facei = c[fi]; dVff = faceValue(dVf, facei);
    if (own[facei] == celli) dV += dVff; else dV -= dVff; } return dV;\<close>
\<close>

definition netFlux :: "fvMesh \<Rightarrow> scalar list \<Rightarrow> label \<Rightarrow> scalar" where
  "netFlux mesh dVfs celli =
     fold (\<lambda>facei dV. if faceOwner mesh ! facei = celli
                       then dV + faceValue dVfs facei else dV - faceValue dVfs facei)
          (cells mesh ! celli) 0"


section \<open>The exchange across processor patches\<close>

text \<open>
  \<open>checkIfOnProcPatch\<close> appends the patch-local label of a boundary face to the
  pending list of its patch when the patch is a non-empty processor patch.
\<close>

definition checkIfOnProcPatch :: "fvMesh \<Rightarrow> label \<Rightarrow> label list list \<Rightarrow> label list list" where
  "checkIfOnProcPatch mesh facei pend =
     (if \<not> isInternalFace mesh facei
      then (let patchi = patchID mesh ! (facei - nInternalFaces mesh);
                pp = boundaryMesh mesh ! patchi
            in if isProcessor pp \<and> psize pp > 0
               then pend[patchi := pend ! patchi @ [facei - pstart pp]]
               else pend)
      else pend)"

text \<open>
  The receiving loop of \<open>syncProcPatches\<close> for one patch:
  \<^verbatim>\<open>forAll(faceIDs, i) { facei = faceIDs[i]; localFlux[facei] = - nbrdVfs[i]; }\<close>
\<close>

definition combineFluxes :: "label \<Rightarrow> label list \<times> scalar list \<Rightarrow> scalar list \<Rightarrow> scalar list" where
  "combineFluxes start msg dVfs =
     (case msg of (faceIDs, nbrdVfs) \<Rightarrow>
        fold (\<lambda>i d. d[start + faceIDs ! i := - (nbrdVfs ! i)]) [0..<length faceIDs] dVfs)"

definition patchMessage :: "fvMesh \<Rightarrow> isoAdvection \<Rightarrow> label \<Rightarrow> label \<times> label list \<times> scalar list" where
  "patchMessage mesh st patchi =
     (let surfCellFacesOnProcPatch = surfaceCellFacesOnProcPatches st ! patchi
      in (patchi, surfCellFacesOnProcPatch,
          map (\<lambda>i. dVf st ! (pstart (boundaryMesh mesh ! patchi) + i)) surfCellFacesOnProcPatch))"

definition syncProcPatches :: "fvMesh \<Rightarrow> controls \<Rightarrow> isoAdvection \<Rightarrow> isoAdvection" where
  "syncProcPatches mesh ctl st =
     (if parRun ctl
      then st\<lparr>dVf := fold (\<lambda>patchi. combineFluxes (pstart (boundaryMesh mesh ! patchi))
                                      (received ctl (nSync st) patchi))
                         (procPatchLabels ctl) (dVf st),
              surfaceCellFacesOnProcPatches :=
                map (\<lambda>pending. []) (surfaceCellFacesOnProcPatches st),
              sent := sent st @ map (patchMessage mesh st) (procPatchLabels ctl),
              nSync := Suc (nSync st),
              log := log st @ [Synced]\<rparr>
      else st\<lparr>log := log st @ [Synced]\<rparr>)"


section \<open>Bounding from above\<close>

text \<open>
  \<open>boundFromAbove(alpha1, dVf, correctedFaces)\<close> works on the transport field it is
  given and on the list of corrected faces, and writes two members of the object:
  \<open>cellIsBounded_\<close> and, through \<open>checkIfOnProcPatch\<close>, the pending lists. The
  record below holds these four and the locals of the loop over the cells
  (\<open>alphaOvershoot\<close>, \<open>fluidToPassOn\<close>, \<open>nFacesToPassFluidThrough\<close>,
  \<open>firstLoop\<close>), which are set anew whenever a candidate cell is entered.
\<close>

record bounding =
  dVfW :: "scalar list"
  correctedFaces :: "label list"
  isBounded :: "bool list"
  pendingFaces :: "label list list"
  alphaOvershoot :: scalar
  fluidToPassOn :: scalar
  nFacesToPassFluidThrough :: nat
  firstLoop :: bool

definition aTolBound :: scalar where
  "aTolBound = 10 * SMALL"

definition labelOf :: "scalar \<Rightarrow> nat" where
  "labelOf s = nat \<lfloor>s\<rfloor>"

text \<open>
  The first loop over the downwind faces:
  \<^verbatim>\<open>maxExtraFaceFluidTrans = mag(phif*dt - dVff);
  if (maxExtraFaceFluidTrans/Vi > aTol)
  { facesToPassFluidThrough.append(facei); phi.append(phif);
    dVfmax.append(maxExtraFaceFluidTrans); dVftot += mag(phif*dt); }\<close>
  It reads the transport field and does not write it, so the faces it keeps are a filter
  of the downwind faces and \<open>dVftot\<close> is a sum over the faces kept.
\<close>

definition maxExtraFaceFluidTrans :: "controls \<Rightarrow> scalar list \<Rightarrow> label \<Rightarrow> scalar" where
  "maxExtraFaceFluidTrans ctl dVfs facei =
     mag (faceValue (phi ctl) facei * deltaT ctl - faceValue dVfs facei)"

definition facesToPassFluidThrough :: "fvMesh \<Rightarrow> controls \<Rightarrow> scalar list \<Rightarrow> label \<Rightarrow> label list" where
  "facesToPassFluidThrough mesh ctl dVfs celli =
     filter (\<lambda>facei. maxExtraFaceFluidTrans ctl dVfs facei / (cellVolumes mesh ! celli) > aTolBound)
            (setDownwindFaces mesh (phi ctl) celli)"

definition dVftot :: "controls \<Rightarrow> label list \<Rightarrow> scalar" where
  "dVftot ctl faces = sum_list (map (\<lambda>facei. mag (faceValue (phi ctl) facei * deltaT ctl)) faces)"

text \<open>
  The body of the second loop, for one face kept by the first. \<open>dVf0\<close> is the
  transport field the first loop read (\<open>dVfmax[fi]\<close> was stored from it).
  \<^verbatim>\<open>fluidToPassThroughFace = fluidToPassOn*mag(phi[fi]*dt)/dVftot;
  nFacesToPassFluidThrough += pos0(dVfmax[fi] - fluidToPassThroughFace);
  fluidToPassThroughFace = min(fluidToPassThroughFace, dVfmax[fi]);
  dVff = faceValue(dVf, facei); dVff += sign(phi[fi])*fluidToPassThroughFace;
  setFaceValue(dVf, facei, dVff);
  if (firstLoop) { checkIfOnProcPatch(facei); correctedFaces.append(facei); }\<close>
\<close>

definition fluidToPassThroughFace :: "controls \<Rightarrow> scalar \<Rightarrow> scalar \<Rightarrow> label \<Rightarrow> scalar" where
  "fluidToPassThroughFace ctl toPassOn tot facei =
     toPassOn * mag (faceValue (phi ctl) facei * deltaT ctl) / tot"

definition passFluidThroughFace ::
  "fvMesh \<Rightarrow> controls \<Rightarrow> scalar list \<Rightarrow> scalar \<Rightarrow> scalar \<Rightarrow> bool \<Rightarrow> label \<Rightarrow> bounding \<Rightarrow> bounding" where
  "passFluidThroughFace mesh ctl dVf0 tot toPassOn first facei b =
     (let share = fluidToPassThroughFace ctl toPassOn tot facei;
          dVfmax = maxExtraFaceFluidTrans ctl dVf0 facei;
          dVff = faceValue (dVfW b) facei + sign (faceValue (phi ctl) facei) * min share dVfmax
      in b\<lparr>dVfW := setFaceValue (dVfW b) facei dVff,
            nFacesToPassFluidThrough := nFacesToPassFluidThrough b + labelOf (pos0 (dVfmax - share)),
            pendingFaces := (if first then checkIfOnProcPatch mesh facei (pendingFaces b)
                             else pendingFaces b),
            correctedFaces := (if first then correctedFaces b @ [facei] else correctedFaces b)\<rparr>)"

text \<open>
  One turn of the \<open>while\<close> loop of a cell. The divisions by the cell volume
  and by \<open>dVftot\<close> are written with the division of the reals; the statements
  about the loop assume a positive volume and a positive time step, under which neither
  denominator is zero when the quotient is used.
\<close>

definition redistribute :: "fvMesh \<Rightarrow> controls \<Rightarrow> scalar list \<Rightarrow> label \<Rightarrow> bounding \<Rightarrow> bounding" where
  "redistribute mesh ctl alpha1 celli b =
     (let Vi = cellVolumes mesh ! celli;
          faces = facesToPassFluidThrough mesh ctl (dVfW b) celli;
          b1 = fold (passFluidThroughFace mesh ctl (dVfW b) (dVftot ctl faces)
                       (fluidToPassOn b) (firstLoop b)) faces
                 (b\<lparr>isBounded := (isBounded b)[celli := True], nFacesToPassFluidThrough := 0\<rparr>);
          alpha1New = alpha1 ! celli - netFlux mesh (dVfW b1) celli / Vi
      in b1\<lparr>firstLoop := False, alphaOvershoot := alpha1New - 1,
             fluidToPassOn := (alpha1New - 1) * Vi\<rparr>)"

text \<open>
  \<^verbatim>\<open>while (alphaOvershoot > aTol && nFacesToPassFluidThrough > 0) { ... }\<close>
  Nothing in the loop bounds the number of turns, so the loop is a partial function:
  \<open>None\<close> is a loop that never ends.
\<close>

partial_function (option) whileOvershoot ::
  "fvMesh \<Rightarrow> controls \<Rightarrow> scalar list \<Rightarrow> label \<Rightarrow> bounding \<Rightarrow> bounding option" where
  "whileOvershoot mesh ctl alpha1 celli b =
     (if alphaOvershoot b > aTolBound \<and> nFacesToPassFluidThrough b > 0
      then whileOvershoot mesh ctl alpha1 celli (redistribute mesh ctl alpha1 celli b)
      else Some b)"

declare whileOvershoot.simps [code]

definition boundCell ::
  "fvMesh \<Rightarrow> controls \<Rightarrow> bool list \<Rightarrow> scalar list \<Rightarrow> label \<Rightarrow> bounding \<Rightarrow> bounding option" where
  "boundCell mesh ctl checkB alpha1 celli b =
     (if checkB ! celli
      then (let Vi = cellVolumes mesh ! celli;
                alpha1New = alpha1 ! celli - netFlux mesh (dVfW b) celli / Vi
            in whileOvershoot mesh ctl alpha1 celli
                 (b\<lparr>alphaOvershoot := alpha1New - 1, fluidToPassOn := (alpha1New - 1) * Vi,
                    nFacesToPassFluidThrough := 1, firstLoop := True\<rparr>))
      else Some b)"

text \<open>A \<open>forAll\<close> loop whose body may not return.\<close>

fun forAllM :: "('a \<Rightarrow> 's \<Rightarrow> 's option) \<Rightarrow> 'a list \<Rightarrow> 's \<Rightarrow> 's option" where
  "forAllM body [] s = Some s"
| "forAllM body (x # xs) s =
     (case body x s of None \<Rightarrow> None | Some s' \<Rightarrow> forAllM body xs s')"

definition boundFromAbove ::
  "fvMesh \<Rightarrow> controls \<Rightarrow> bool list \<Rightarrow> scalar list \<Rightarrow> scalar list \<Rightarrow> bool list \<Rightarrow> label list list
     \<Rightarrow> bounding option" where
  "boundFromAbove mesh ctl checkB alpha1 dVfs bounded pend =
     forAllM (boundCell mesh ctl checkB alpha1) [0..<length alpha1]
       \<lparr>dVfW = dVfs, correctedFaces = [], isBounded = bounded, pendingFaces = pend,
        alphaOvershoot = 0, fluidToPassOn = 0, nFacesToPassFluidThrough = 0,
        firstLoop = False\<rparr>"


section \<open>The bounding loop\<close>

text \<open>
  Modelled from the spec: \<open>fvc::surfaceIntegrate\<close>, \<open>gMax\<close> and \<open>gMin\<close> are
  functions of the field library. The spec's field update is
  \<open>fraction - (surface integral of the transport) / (cell volume)\<close>, the surface
  integral of a cell being the signed sum over its faces that \<open>netFlux\<close> computes.
  \<open>gMax\<close> and \<open>gMin\<close> are global: every process takes the largest (smallest)
  entry of its own field, \<open>-VGREAT\<close> (\<open>VGREAT\<close>) when the field is empty, and on
  a distributed run these are combined over all processes, so that each process
  obtains the largest (smallest) entry of the whole field. On a run that is not
  distributed there is one process. \<open>fieldMax\<close> and \<open>fieldMin\<close> are the
  extremes of one field; \<open>gMax\<close> and \<open>gMin\<close> take whether the run is
  distributed, the fields of the other processes, and the field of this process.
\<close>

definition VGREAT :: scalar where
  "VGREAT = 10 ^ 300"

definition alphaMinusSurfaceIntegrate :: "fvMesh \<Rightarrow> scalar list \<Rightarrow> scalar list \<Rightarrow> scalar list" where
  "alphaMinusSurfaceIntegrate mesh alpha1 dVfs =
     map (\<lambda>celli. alpha1 ! celli - netFlux mesh dVfs celli / (cellVolumes mesh ! celli))
         [0..<length alpha1]"

fun fieldMax :: "scalar list \<Rightarrow> scalar" where
  "fieldMax [] = - VGREAT"
| "fieldMax (x # xs) = fold max xs x"

fun fieldMin :: "scalar list \<Rightarrow> scalar" where
  "fieldMin [] = VGREAT"
| "fieldMin (x # xs) = fold min xs x"

definition gMax :: "bool \<Rightarrow> scalar list list \<Rightarrow> scalar list \<Rightarrow> scalar" where
  "gMax distributed elsewhere f =
     (if distributed then fold max (map fieldMax elsewhere) (fieldMax f) else fieldMax f)"

definition gMin :: "bool \<Rightarrow> scalar list list \<Rightarrow> scalar list \<Rightarrow> scalar" where
  "gMin distributed elsewhere f =
     (if distributed then fold min (map fieldMin elsewhere) (fieldMin f) else fieldMin f)"

definition aTolLimit :: scalar where
  "aTolLimit = 1 / 10 ^ 12"

text \<open>
  The branch of \<open>limitFluxes\<close> for the upper bound: a copy of \<open>dVf_\<close> is bounded,
  the corrected faces are written back and the processor patches are synchronised.
  \<^verbatim>\<open>surfaceScalarField dVfcorrected("dVfcorrected", dVf_);
  boundFromAbove(alpha1In_, dVfcorrected, correctedFaces);
  forAll(correctedFaces, fi)
  { facei = correctedFaces[fi]; setFaceValue(dVf_, facei, faceValue(dVfcorrected, facei)); }
  syncProcPatches(dVf_, phi_);\<close>
\<close>

definition boundAbove :: "fvMesh \<Rightarrow> controls \<Rightarrow> isoAdvection \<Rightarrow> isoAdvection option" where
  "boundAbove mesh ctl st =
     (case boundFromAbove mesh ctl (checkBounding st) (alpha1In st) (dVf st)
             (cellIsBounded st) (surfaceCellFacesOnProcPatches st) of
        None \<Rightarrow> None
      | Some b \<Rightarrow>
          Some (syncProcPatches mesh ctl
            (st\<lparr>dVf := fold (\<lambda>facei d. setFaceValue d facei (faceValue (dVfW b) facei))
                              (correctedFaces b) (dVf st),
                cellIsBounded := isBounded b,
                surfaceCellFacesOnProcPatches := pendingFaces b,
                log := log st @ [BoundAbove, Merged]\<rparr>)))"

text \<open>
  The branch for the lower bound:
  \<^verbatim>\<open>scalarField alpha2(1.0 - alpha1In_);
  surfaceScalarField dVfcorrected("dVfcorrected", phi_*dt - dVf_);
  boundFromAbove(alpha2, dVfcorrected, correctedFaces);
  forAll(correctedFaces, fi)
  { facei = correctedFaces[fi]; phi = faceValue(phi_, facei);
    dVcorr = faceValue(dVfcorrected, facei); setFaceValue(dVf_, facei, phi*dt - dVcorr); }
  syncProcPatches(dVf_, phi_);\<close>
\<close>

definition complementField :: "controls \<Rightarrow> scalar list \<Rightarrow> scalar list" where
  "complementField ctl dVfs = map2 (\<lambda>p d. p * deltaT ctl - d) (phi ctl) dVfs"

definition boundBelow :: "fvMesh \<Rightarrow> controls \<Rightarrow> isoAdvection \<Rightarrow> isoAdvection option" where
  "boundBelow mesh ctl st =
     (let alpha2 = map (\<lambda>a. 1 - a) (alpha1In st)
      in case boundFromAbove mesh ctl (checkBounding st) alpha2 (complementField ctl (dVf st))
                (cellIsBounded st) (surfaceCellFacesOnProcPatches st) of
           None \<Rightarrow> None
         | Some b \<Rightarrow>
             Some (syncProcPatches mesh ctl
               (st\<lparr>dVf := fold (\<lambda>facei d. setFaceValue d facei
                                    (faceValue (phi ctl) facei * deltaT ctl
                                       - faceValue (dVfW b) facei))
                                 (correctedFaces b) (dVf st),
                   cellIsBounded := isBounded b,
                   surfaceCellFacesOnProcPatches := pendingFaces b,
                   log := log st @ [BoundBelow, Merged]\<rparr>)))"

text \<open>
  \<^verbatim>\<open>volScalarField alphaNew = alpha1_ - fvc::surfaceIntegrate(dVf_);
  scalar maxAlphaMinus1 = gMax(alphaNew) - 1;
  scalar minAlpha = gMin(alphaNew);
  cellIsBounded_ = false;
  for (label n = 0; n < nAlphaBounds_; n++)
  { if (maxAlphaMinus1 > aTol) { ... } if (minAlpha < -aTol) { ... } }\<close>
  One turn of \<open>for (label n = 0; n < nAlphaBounds_; n++)\<close>. The two numbers tested
  are locals of \<open>limitFluxes\<close> assigned before the loop; the block under
  \<open>if (debug)\<close> declares locals of its own and only prints.
\<close>

definition boundingStep :: "fvMesh \<Rightarrow> controls \<Rightarrow> scalar \<Rightarrow> scalar \<Rightarrow> isoAdvection \<Rightarrow> isoAdvection option" where
  "boundingStep mesh ctl maxAlphaMinus1 minAlpha st =
     (case (if maxAlphaMinus1 > aTolLimit then boundAbove mesh ctl st else Some st) of
        None \<Rightarrow> None
      | Some st1 \<Rightarrow> if minAlpha < - aTolLimit then boundBelow mesh ctl st1 else Some st1)"

definition limitFluxes :: "fvMesh \<Rightarrow> controls \<Rightarrow> isoAdvection \<Rightarrow> isoAdvection option" where
  "limitFluxes mesh ctl st =
     (let alphaNew = alphaMinusSurfaceIntegrate mesh (alpha1In st) (dVf st);
          maxAlphaMinus1 = gMax (parRun ctl) (alphaNewElsewhere ctl) alphaNew - 1;
          minAlpha = gMin (parRun ctl) (alphaNewElsewhere ctl) alphaNew
      in forAllM (\<lambda>n. boundingStep mesh ctl maxAlphaMinus1 minAlpha)
           [0..<nat (nAlphaBounds ctl)]
           (st\<lparr>cellIsBounded := assignList (cellIsBoundedSize st) False (cellIsBounded st)\<rparr>))"


section \<open>The flux estimator\<close>

text \<open>
  \<open>isoCutFace_.timeIntegratedFaceFlux\<close> and the velocity interpolation are
  external. The engine below stands for the interpolation of the velocity at the
  isoface centre of the cell, its product with the unit normal and the call itself: it
  maps the cell, its isoface, the unit normal and the face to the transport of the face.
\<close>

type_synonym faceFluxEngine = "label \<Rightarrow> cutResult \<Rightarrow> vector option \<Rightarrow> label \<Rightarrow> scalar"

text \<open>
  \<^verbatim>\<open>surfCells_.clear(); bsFaces_.clear(); ...
  if (mesh_.topoChanging())
  { checkBounding_.resize(mesh_.nCells()); cellIsBounded_.resize(mesh_.nCells()); ... }
  checkBounding_ = false;
  cellIsBounded_ = false;\<close>
  The entries that \<open>resize\<close> adds to a storage are written by the assignment
  that follows before anything reads them.
\<close>

definition clearIsoFaceData :: "fvMesh \<Rightarrow> isoAdvection \<Rightarrow> isoAdvection" where
  "clearIsoFaceData mesh st =
     (let st1 = st\<lparr>surfCells := [], bsFaces := []\<rparr>;
          st2 = (if topoChanging mesh
                 then st1\<lparr>checkBounding := resizeList (length (cells mesh)) False (checkBounding st1),
                          checkBoundingSize := length (cells mesh),
                          cellIsBounded := resizeList (length (cells mesh)) False (cellIsBounded st1),
                          cellIsBoundedSize := length (cells mesh)\<rparr>
                 else st1)
      in st2\<lparr>checkBounding := assignList (checkBoundingSize st2) False (checkBounding st2),
             cellIsBounded := assignList (cellIsBoundedSize st2) False (cellIsBounded st2)\<rparr>)"

text \<open>The body of the loop over the faces of a cut surface cell.\<close>

definition faceStep ::
  "fvMesh \<Rightarrow> controls \<Rightarrow> faceFluxEngine \<Rightarrow> cutResult \<Rightarrow> label \<Rightarrow> label \<Rightarrow> isoAdvection \<Rightarrow> isoAdvection" where
  "faceStep mesh ctl flux isoface celli facei st =
     (if isInternalFace mesh facei
      then (let isOwner = (celli = faceOwner mesh ! facei);
                isDownwind = (if isOwner then phi ctl ! facei > 10 * SMALL
                              else phi ctl ! facei < - (10 * SMALL));
                otherCell = (if isOwner then faceNeighbour mesh ! facei
                             else faceOwner mesh ! facei);
                st1 = (if isDownwind
                       then st\<lparr>dVf := (dVf st)[facei :=
                                 flux celli isoface (unitNormal (isoFaceArea isoface)) facei]\<rparr>
                       else st)
            in fold (\<lambda>nei s. s\<lparr>checkBounding := (checkBounding s)[nei := True]\<rparr>)
                    (cellCells mesh ! otherCell)
                    (st1\<lparr>checkBounding := (checkBounding st1)[otherCell := True]\<rparr>))
      else st\<lparr>bsFaces := bsFaces st @ [(celli, facei)]\<rparr>)"

text \<open>The body of the loop over the cells.\<close>

definition cellStep ::
  "cutEngine \<Rightarrow> faceFluxEngine \<Rightarrow> fvMesh \<Rightarrow> controls \<Rightarrow> label \<Rightarrow> isoAdvection \<Rightarrow> isoAdvection" where
  "cellStep vofCutCell flux mesh ctl celli st =
     (if \<not> isASurfaceCell (surfCellTol ctl) (alpha1In st) celli then st
      else (let st1 = st\<lparr>surfCells := surfCells st @ [celli],
                         checkBounding := (checkBounding st)[celli := True]\<rparr>;
                isoface = cutCell vofCutCell (isoFaceTol ctl) (alpha1In st) celli
            in if cellStatus isoface \<noteq> 0 then st1
               else fold (faceStep mesh ctl flux isoface celli) (cells mesh ! celli) st1))"

text \<open>
  The body of the loop over the stored boundary faces. The lists \<open>bsx0_\<close>,
  \<open>bsn0_\<close>, \<open>bsUn0_\<close> and \<open>bsf0_\<close> hold the isoface data of the cell the
  face was stored for; \<open>bsFaces\<close> keeps the cell with the face instead.
\<close>

definition boundaryFaceStep ::
  "cutEngine \<Rightarrow> faceFluxEngine \<Rightarrow> fvMesh \<Rightarrow> controls \<Rightarrow> label \<times> label \<Rightarrow> isoAdvection \<Rightarrow> isoAdvection" where
  "boundaryFaceStep vofCutCell flux mesh ctl cf st =
     (case cf of (celli, facei) \<Rightarrow>
        (let patchi = patchID mesh ! (facei - nInternalFaces mesh);
             start = pstart (boundaryMesh mesh ! patchi);
             patchFacei = facei - start
         in if psize (boundaryMesh mesh ! patchi) > 0 \<and> phi ctl ! (start + patchFacei) > 10 * SMALL
            then st\<lparr>dVf := (dVf st)[start + patchFacei :=
                              (let isoface = cutCell vofCutCell (isoFaceTol ctl) (alpha1In st) celli
                               in flux celli isoface (unitNormal (isoFaceArea isoface)) facei)],
                    surfaceCellFacesOnProcPatches :=
                      checkIfOnProcPatch mesh facei (surfaceCellFacesOnProcPatches st)\<rparr>
            else st))"

definition timeIntegratedFlux ::
  "cutEngine \<Rightarrow> faceFluxEngine \<Rightarrow> fvMesh \<Rightarrow> controls \<Rightarrow> isoAdvection \<Rightarrow> isoAdvection" where
  "timeIntegratedFlux vofCutCell flux mesh ctl st =
     (let st1 = fold (cellStep vofCutCell flux mesh ctl) [0..<length (alpha1In st)]
                  (clearIsoFaceData mesh st);
          st2 = fold (boundaryFaceStep vofCutCell flux mesh ctl) (bsFaces st1) st1
      in syncProcPatches mesh ctl st2)"


section \<open>Properties of the transport field\<close>

text \<open>
  The amount the second loop adds to a face: the share, limited by \<open>dVfmax\<close>.
\<close>

definition passedThroughFace :: "controls \<Rightarrow> scalar list \<Rightarrow> scalar \<Rightarrow> scalar \<Rightarrow> label \<Rightarrow> scalar" where
  "passedThroughFace ctl dVf0 tot toPassOn facei =
     min (fluidToPassThroughFace ctl toPassOn tot facei) (maxExtraFaceFluidTrans ctl dVf0 facei)"

text \<open>
  The capacity invariant of the spec bounds the magnitude of the transport of a face by
  the magnitude of \<open>phi*dt\<close>. The comments of \<open>limitFluxes\<close> and
  \<open>boundFromAbove\<close> say more: \<open>dVf\<close> has the sign of \<open>phi\<close> and is the
  portion of \<open>phi*dt\<close> that is water. \<open>portion q d\<close> says that \<open>d\<close> lies
  between 0 and \<open>q\<close>.
\<close>

definition portion :: "scalar \<Rightarrow> scalar \<Rightarrow> bool" where
  "portion q d = ((0 \<le> d \<and> d \<le> q) \<or> (q \<le> d \<and> d \<le> 0))"

definition capacityInvariant :: "controls \<Rightarrow> scalar list \<Rightarrow> bool" where
  "capacityInvariant ctl dVfs =
     (\<forall>f < length dVfs. mag (dVfs ! f) \<le> mag (phi ctl ! f * deltaT ctl))"

definition portionInvariant :: "controls \<Rightarrow> scalar list \<Rightarrow> bool" where
  "portionInvariant ctl dVfs =
     (\<forall>f < length dVfs. portion (phi ctl ! f * deltaT ctl) (dVfs ! f))"

text \<open>
  What the class takes for granted about its inputs: no face is listed twice in a cell,
  cell volumes and the time step are positive, the faces of a cell are faces of the
  mesh, and the fields have one entry per cell or per face. In a distributed run the
  values the neighbours send are themselves portions of the flux of their face.
\<close>

definition meshOK :: "fvMesh \<Rightarrow> bool" where
  "meshOK mesh =
     (length (cellVolumes mesh) = length (cells mesh)
      \<and> (\<forall>celli < length (cells mesh).
            distinct (cells mesh ! celli) \<and> 0 < cellVolumes mesh ! celli
            \<and> (\<forall>f \<in> set (cells mesh ! celli). f < length (faceOwner mesh))))"

definition receivedWithin :: "fvMesh \<Rightarrow> controls \<Rightarrow> bool" where
  "receivedWithin mesh ctl =
     (\<forall>k. \<forall>patchi \<in> set (procPatchLabels ctl). \<forall>i < length (fst (received ctl k patchi)).
        portion (phi ctl ! (pstart (boundaryMesh mesh ! patchi) + fst (received ctl k patchi) ! i)
                   * deltaT ctl)
                (- (snd (received ctl k patchi) ! i)))"

definition consistent :: "fvMesh \<Rightarrow> controls \<Rightarrow> isoAdvection \<Rightarrow> bool" where
  "consistent mesh ctl st =
     (meshOK mesh \<and> 0 < deltaT ctl
      \<and> length (alpha1In st) = length (cells mesh)
      \<and> length (dVf st) = length (faceOwner mesh)
      \<and> length (phi ctl) = length (faceOwner mesh)
      \<and> (parRun ctl \<longrightarrow> receivedWithin mesh ctl))"

definition cellOK :: "fvMesh \<Rightarrow> controls \<Rightarrow> label \<Rightarrow> bool" where
  "cellOK mesh ctl celli =
     (distinct (cells mesh ! celli) \<and> 0 < cellVolumes mesh ! celli \<and> 0 < deltaT ctl)"

text \<open>
  What holds whenever the condition of the \<open>while\<close> loop of a cell is tested: the
  overshoot is the one of the current transport field, the fluid to pass on is the
  overshoot times the volume, the field is within capacity, and a count of zero means
  that no face is left to pass fluid through.
\<close>

definition cellLoopState :: "fvMesh \<Rightarrow> controls \<Rightarrow> scalar list \<Rightarrow> label \<Rightarrow> bounding \<Rightarrow> bool" where
  "cellLoopState mesh ctl alpha1 celli b =
     (alphaOvershoot b = alpha1 ! celli - netFlux mesh (dVfW b) celli / (cellVolumes mesh ! celli) - 1
      \<and> fluidToPassOn b = alphaOvershoot b * (cellVolumes mesh ! celli)
      \<and> capacityInvariant ctl (dVfW b)
      \<and> (\<forall>f \<in> set (cells mesh ! celli). f < length (dVfW b))
      \<and> (nFacesToPassFluidThrough b = 0 \<longrightarrow> facesToPassFluidThrough mesh ctl (dVfW b) celli = []))"


section \<open>What an exchange receives\<close>

text \<open>
  The pairs (local face, remote value) that arrive in the \<open>k\<close>-th exchange, in the
  order in which \<open>syncProcPatches\<close> reads them: patch by patch, and within a patch
  in the order of the list received. The local face of the pair
  (\<open>remoteFaceId\<close>, \<open>remoteValue\<close>) on a patch is the face \<open>remoteFaceId\<close>
  of that patch. The pairs are unambiguous when no two of them give different values
  to the same face.
\<close>

definition receivedPairs :: "fvMesh \<Rightarrow> controls \<Rightarrow> nat \<Rightarrow> (label \<times> scalar) list" where
  "receivedPairs mesh ctl k =
     concat (map (\<lambda>patchi. case received ctl k patchi of (faceIDs, nbrdVfs) \<Rightarrow>
                    map (\<lambda>i. (pstart (boundaryMesh mesh ! patchi) + faceIDs ! i, nbrdVfs ! i))
                        [0..<length faceIDs])
                 (procPatchLabels ctl))"

definition unambiguous :: "(label \<times> scalar) list \<Rightarrow> bool" where
  "unambiguous pairs = (\<forall>p \<in> set pairs. \<forall>q \<in> set pairs. fst p = fst q \<longrightarrow> snd p = snd q)"


section \<open>The cells to be checked for bounding\<close>

text \<open>
  The cell on the other side of an internal face, and the cells that
  \<open>timeIntegratedFlux\<close> marks on behalf of a cut surface cell: the cell on the
  other side of each internal face, and the cells that share a face with such a cell.
  A cell is a bounding candidate when it is a surface cell or is marked on behalf of a
  surface cell that the cutting engine reports as cut.
\<close>

definition oppositeCell :: "fvMesh \<Rightarrow> label \<Rightarrow> label \<Rightarrow> label" where
  "oppositeCell mesh celli facei =
     (if celli = faceOwner mesh ! facei then faceNeighbour mesh ! facei else faceOwner mesh ! facei)"

definition oppositeOf :: "fvMesh \<Rightarrow> label \<Rightarrow> label \<Rightarrow> bool" where
  "oppositeOf mesh celli c =
     (\<exists>facei \<in> set (cells mesh ! celli). isInternalFace mesh facei
        \<and> (c = oppositeCell mesh celli facei \<or> c \<in> set (cellCells mesh ! oppositeCell mesh celli facei)))"

definition boundingCandidate ::
  "cutEngine \<Rightarrow> fvMesh \<Rightarrow> controls \<Rightarrow> scalar list \<Rightarrow> label \<Rightarrow> bool" where
  "boundingCandidate vofCutCell mesh ctl alphas c =
     (\<exists>celli < length alphas. isASurfaceCell (surfCellTol ctl) alphas celli
        \<and> (c = celli \<or> (cellIsCut vofCutCell (isoFaceTol ctl) alphas celli \<and> oppositeOf mesh celli c)))"


section \<open>The redistribution in the words of the spec\<close>






section \<open>Two small meshes\<close>

text \<open>
  The first mesh is one cell with one boundary face through which the flux leaves. Its
  state has a transport of sign opposite to the flux, of the same magnitude.

  The second is two cells in a row: the flux enters the second cell through the
  internal face 0 and leaves it through the boundary face 1. The first cell is full and
  sends water only; the second is half full and nothing leaves it yet.
\<close>

definition exMesh1 :: fvMesh where
  "exMesh1 = \<lparr>cells = [[0]], faceOwner = [0], faceNeighbour = [], cellCells = [[]],
     cellVolumes = [1], nInternalFaces = 0, patchID = [0],
     boundaryMesh = [\<lparr>pstart = 0, psize = 1, isProcessor = False\<rparr>], topoChanging = False\<rparr>"

definition exControls1 :: controls where
  "exControls1 = \<lparr>phi = [1], deltaT = 1, nAlphaBounds = 3, surfCellTol = 1 / 10 ^ 8,
     isoFaceTol = 1 / 10 ^ 10, parRun = False, procPatchLabels = [],
     received = (\<lambda>k patchi. ([], [])), alphaNewElsewhere = []\<rparr>"

definition exState1 :: isoAdvection where
  "exState1 = \<lparr>alpha1In = [- 3], dVf = [- 1], cellIsBounded = [False], cellIsBoundedSize = 0, checkBounding = [True], checkBoundingSize = 0,
     surfCells = [], bsFaces = [], surfaceCellFacesOnProcPatches = [[]], nSync = 0, sent = [],
     log = []\<rparr>"

definition exMesh2 :: fvMesh where
  "exMesh2 = \<lparr>cells = [[0], [0, 1]], faceOwner = [0, 1], faceNeighbour = [1],
     cellCells = [[1], [0]], cellVolumes = [1, 1], nInternalFaces = 1, patchID = [0],
     boundaryMesh = [\<lparr>pstart = 1, psize = 1, isProcessor = False\<rparr>], topoChanging = False\<rparr>"

definition exControls2 :: controls where
  "exControls2 = \<lparr>phi = [1, 1], deltaT = 1, nAlphaBounds = 3, surfCellTol = 1 / 10 ^ 8,
     isoFaceTol = 1 / 10 ^ 10, parRun = False, procPatchLabels = [],
     received = (\<lambda>k patchi. ([], [])), alphaNewElsewhere = []\<rparr>"

definition exState2 :: isoAdvection where
  "exState2 = \<lparr>alpha1In = [1, 1 / 2], dVf = [1, 0], cellIsBounded = [False, False], cellIsBoundedSize = 0,
     checkBounding = [True, True], checkBoundingSize = 0, surfCells = [], bsFaces = [],
     surfaceCellFacesOnProcPatches = [[]], nSync = 0, sent = [], log = []\<rparr>"


text \<open>
  A third state, on the second mesh: nothing enters the second cell and all the flux
  through the boundary face is water, more than the cell holds.
\<close>

definition exState3 :: isoAdvection where
  "exState3 = \<lparr>alpha1In = [0, 1 / 2], dVf = [0, 1], cellIsBounded = [False, False], cellIsBoundedSize = 0,
     checkBounding = [True, True], checkBoundingSize = 0, surfCells = [], bsFaces = [],
     surfaceCellFacesOnProcPatches = [[]], nSync = 0, sent = [], log = []\<rparr>"


text \<open>
  Two states of the loop of a cell: on the first mesh with a transport of sign opposite
  to the flux, on the second mesh at the entry of the loop of the second cell.
\<close>

definition exBounding1 :: bounding where
  "exBounding1 = \<lparr>dVfW = [- 1 / 2], correctedFaces = [], isBounded = [False],
     pendingFaces = [[]], alphaOvershoot = 5 / 2, fluidToPassOn = 5 / 2,
     nFacesToPassFluidThrough = 1, firstLoop = True\<rparr>"

definition exBounding2 :: bounding where
  "exBounding2 = \<lparr>dVfW = [1, 0], correctedFaces = [], isBounded = [False, False],
     pendingFaces = [[]], alphaOvershoot = 1 / 2, fluidToPassOn = 1 / 2,
     nFacesToPassFluidThrough = 1, firstLoop = True\<rparr>"


text \<open>
  Two cutting engines, one that reports no cell as cut and one that reports every cell
  as cut, a face flux engine, and two states of the second mesh whose first cell is
  half full and whose second cell is empty: in the first no flag is set, in the second
  every flag is. The fourth mesh is the second with a changing topology.
\<close>

definition exCutNever :: cutEngine where
  "exCutNever = (\<lambda>celli a tol maxIter.
     \<lparr>cellStatus = 1, isoValue = 0, isoFaceCentre = vzero, isoFaceArea = vzero\<rparr>)"

definition exCutAlways :: cutEngine where
  "exCutAlways = (\<lambda>celli a tol maxIter.
     \<lparr>cellStatus = 0, isoValue = 1 / 2, isoFaceCentre = vzero, isoFaceArea = (0, 0, 1)\<rparr>)"

definition exFlux :: faceFluxEngine where
  "exFlux = (\<lambda>celli isoface n0 facei. 1 / 2)"

definition exState4 :: isoAdvection where
  "exState4 = \<lparr>alpha1In = [1 / 2, 0], dVf = [1 / 2, 0],
     cellIsBounded = [False, False], cellIsBoundedSize = 0,
     checkBounding = [False, False], checkBoundingSize = 0, surfCells = [1], bsFaces = [],
     surfaceCellFacesOnProcPatches = [[]], nSync = 0, sent = [], log = []\<rparr>"

definition exState6 :: isoAdvection where
  "exState6 = \<lparr>alpha1In = [1 / 2, 0], dVf = [1 / 2, 0],
     cellIsBounded = [True, True], cellIsBoundedSize = 0,
     checkBounding = [True, True], checkBoundingSize = 0, surfCells = [1], bsFaces = [],
     surfaceCellFacesOnProcPatches = [[]], nSync = 0, sent = [], log = []\<rparr>"

definition exMesh4 :: fvMesh where
  "exMesh4 = \<lparr>cells = [[0], [0, 1]], faceOwner = [0, 1], faceNeighbour = [1],
     cellCells = [[1], [0]], cellVolumes = [1, 1], nInternalFaces = 1, patchID = [0],
     boundaryMesh = [\<lparr>pstart = 1, psize = 1, isProcessor = False\<rparr>], topoChanging = True\<rparr>"


text \<open>
  A third mesh for a distributed run: one cell whose two faces lie on a processor
  patch. The neighbour sends the value 3/10 for face 1 of the patch in every exchange.
\<close>

definition exMesh3 :: fvMesh where
  "exMesh3 = \<lparr>cells = [[0, 1]], faceOwner = [0, 0], faceNeighbour = [], cellCells = [[]],
     cellVolumes = [1], nInternalFaces = 0, patchID = [0, 0],
     boundaryMesh = [\<lparr>pstart = 0, psize = 2, isProcessor = True\<rparr>], topoChanging = False\<rparr>"

definition exControls3 :: controls where
  "exControls3 = \<lparr>phi = [1, - 1], deltaT = 1, nAlphaBounds = 3, surfCellTol = 1 / 10 ^ 8,
     isoFaceTol = 1 / 10 ^ 10, parRun = True, procPatchLabels = [0],
     received = (\<lambda>k patchi. ([1], [3 / 10])), alphaNewElsewhere = [[3 / 2]]\<rparr>"

definition exState5 :: isoAdvection where
  "exState5 = \<lparr>alpha1In = [1 / 2], dVf = [1 / 2, - 1 / 4], cellIsBounded = [False], cellIsBoundedSize = 0,
     checkBounding = [True], checkBoundingSize = 0, surfCells = [0], bsFaces = [],
     surfaceCellFacesOnProcPatches = [[0]], nSync = 0, sent = [], log = []\<rparr>"


text \<open>
  A second state of the third mesh: the flux through face 0 is all water, the cell lacks
  fluid, and nothing is pending.
\<close>

definition exState7 :: isoAdvection where
  "exState7 = \<lparr>alpha1In = [- 1], dVf = [1, 0], cellIsBounded = [False], cellIsBoundedSize = 0,
     checkBounding = [True], checkBoundingSize = 0, surfCells = [0], bsFaces = [],
     surfaceCellFacesOnProcPatches = [[]], nSync = 0, sent = [], log = []\<rparr>"


section \<open>Basic facts\<close>

lemma SMALL_pos: "0 < SMALL"
  by (simp add: SMALL_def)

lemmas example_defs = exMesh1_def exControls1_def exState1_def exMesh2_def exControls2_def
  exState2_def exState3_def exState4_def exBounding1_def exBounding2_def
  exCutNever_def exCutAlways_def exFlux_def exMesh3_def exControls3_def exState5_def
  exState6_def exMesh4_def exState7_def

lemmas bound_defs = limitFluxes_def alphaMinusSurfaceIntegrate_def netFlux_def
     faceValue_def boundingStep_def aTolLimit_def boundAbove_def boundBelow_def Let_def
      boundFromAbove_def boundCell_def whileOvershoot.simps redistribute_def complementField_def
      facesToPassFluidThrough_def setDownwindFaces_def isDownwindFace_def SMALL_def aTolBound_def
      maxExtraFaceFluidTrans_def mag_def dVftot_def passFluidThroughFace_def fluidToPassThroughFace_def
      sign_def pos0_def labelOf_def setFaceValue_def checkIfOnProcPatch_def isInternalFace_def
      syncProcPatches_def gMax_def gMin_def assignList_def

lemma vmag_nonneg: "0 \<le> vmag v"
  by (cases v) (simp add: vmag_def)

lemma vmag_vscale: "vmag (vscale s v) = \<bar>s\<bar> * vmag v"
proof (cases v)
  case (fields x y z)
  have "s * x * (s * x) + s * y * (s * y) + s * z * (s * z) = s\<^sup>2 * (x * x + y * y + z * z)"
    by (simp add: power2_eq_square algebra_simps)
  then show ?thesis
    using fields by (simp add: vmag_def vscale_def real_sqrt_mult)
qed


section \<open>Claims about the classifier, the snap and the accessors\<close>

text \<open>
  C8. For every cell, \<open>isASurfaceCell\<close> is true exactly when the cell's fraction lies
  strictly between the tolerance and one minus the tolerance. The function returns a
  truth value computed from its arguments and changes no state.
\<close>

theorem isASurfaceCell_iff:
  "isASurfaceCell tol alphaIn celli =
     (tol < alphaIn ! celli \<and> alphaIn ! celli < 1 - tol)"
  by (simp add: isASurfaceCell_def)

theorem isASurfaceCell_iff_witness:
  "isASurfaceCell (1 / 10 ^ 8) [0, 1 / 2, 1] 1
   \<and> \<not> isASurfaceCell (1 / 10 ^ 8) [0, 1 / 2, 1] 0
   \<and> \<not> isASurfaceCell (1 / 10 ^ 8) [1 / 10 ^ 8, 1 / 2, 1 - 1 / 10 ^ 8] 0
   \<and> \<not> isASurfaceCell (1 / 10 ^ 8) [1 / 10 ^ 8, 1 / 2, 1 - 1 / 10 ^ 8] 2"
  using isASurfaceCell_iff [of "1 / 10 ^ 8" "[0, 1 / 2, 1]" 1]
    isASurfaceCell_iff [of "1 / 10 ^ 8" "[0, 1 / 2, 1]" 0]
    isASurfaceCell_iff [of "1 / 10 ^ 8" "[1 / 10 ^ 8, 1 / 2, 1 - 1 / 10 ^ 8]" 0]
    isASurfaceCell_iff [of "1 / 10 ^ 8" "[1 / 10 ^ 8, 1 / 2, 1 - 1 / 10 ^ 8]" 2]
  by simp

text \<open>
  C9. With \<open>0 < snapTol \<le> 1/2\<close> the snap step sends every fraction strictly below
  \<open>snapTol\<close> to 0, every fraction strictly above \<open>1 - snapTol\<close> to 1, and keeps
  every fraction strictly between the two; with \<open>snapTol = 0\<close>, or no entry at all,
  the snap step returns the field as it is.
\<close>

theorem snapStep_semantics:
  "(lookupOrDefault (snapTol dict) 0 = t \<and> 0 < t \<and> t \<le> 1 / 2 \<and> i < length alpha1 \<longrightarrow>
      length (snapStep dict alpha1) = length alpha1
      \<and> (alpha1 ! i < t \<longrightarrow> snapStep dict alpha1 ! i = 0)
      \<and> (1 - t < alpha1 ! i \<longrightarrow> snapStep dict alpha1 ! i = 1)
      \<and> (t < alpha1 ! i \<and> alpha1 ! i < 1 - t \<longrightarrow> snapStep dict alpha1 ! i = alpha1 ! i))
   \<and> (lookupOrDefault (snapTol dict) 0 = 0 \<longrightarrow> snapStep dict alpha1 = alpha1)"
  by (auto simp add: snapStep_def snapValue_def pos0_def neg0_def Let_def)

theorem snapStep_semantics_witness:
  "snapStep \<lparr>nAlphaBoundsEntry = None, isoFaceTolEntry = None, surfCellTolEntry = None,
      snapTol = Some (1 / 10), clip = None\<rparr> [1 / 20, 1 / 2, 19 / 20] = [0, 1 / 2, 1]
   \<and> snapStep \<lparr>nAlphaBoundsEntry = None, isoFaceTolEntry = None, surfCellTolEntry = None,
      snapTol = None, clip = None\<rparr> [1 / 20, 1 / 2, 19 / 20] = [1 / 20, 1 / 2, 19 / 20]"
  using snapStep_semantics [of "\<lparr>nAlphaBoundsEntry = None, isoFaceTolEntry = None, surfCellTolEntry = None,
      snapTol = Some (1 / 10), clip = None\<rparr>" "1 / 10" 0
      "[1 / 20, 1 / 2, 19 / 20]"]
    snapStep_semantics [of "\<lparr>nAlphaBoundsEntry = None, isoFaceTolEntry = None, surfCellTolEntry = None,
      snapTol = None, clip = None\<rparr>" 0 0 "[1 / 20, 1 / 2, 19 / 20]"]
  by (simp add: snapStep_def snapValue_def pos0_def neg0_def lookupOrDefault_def)

text \<open>
  C10. For a cell the cutting engine does not report as cut, \<open>getNormal\<close>,
  \<open>getSurfaceArea\<close> and \<open>getIsoFaceCentre\<close> return the zero vector. For a cut
  cell \<open>getNormal\<close> is the isoface area vector divided by its own magnitude, which
  is a vector of magnitude one when that magnitude is not zero.
\<close>

theorem getNormal_semantics:
  "(\<not> cellIsCut eng tol alphaIn celli \<longrightarrow>
      getNormal eng tol alphaIn celli = Some vzero
      \<and> getSurfaceArea eng tol alphaIn celli = vzero
      \<and> getIsoFaceCentre eng tol alphaIn celli = vzero)
   \<and> (cellIsCut eng tol alphaIn celli \<longrightarrow>
      getNormal eng tol alphaIn celli =
        vdiv (isoFaceArea (cutCell eng tol alphaIn celli))
             (vmag (isoFaceArea (cutCell eng tol alphaIn celli)))
      \<and> (vmag (isoFaceArea (cutCell eng tol alphaIn celli)) \<noteq> 0 \<longrightarrow>
           (\<exists>n. getNormal eng tol alphaIn celli = Some n \<and> vmag n = 1)))"
proof -
  have unit: "vmag a \<noteq> 0 \<Longrightarrow> \<exists>n. vdiv a (vmag a) = Some n \<and> vmag n = 1" for a
    using vmag_nonneg [of a] by (simp add: vdiv_def vmag_vscale)
  show ?thesis
    using unit by (simp add: getNormal_def getSurfaceArea_def getIsoFaceCentre_def unitNormal_def)
qed

theorem getNormal_semantics_witness:
  "getNormal (\<lambda>c a t n. \<lparr>cellStatus = 1, isoValue = 0, isoFaceCentre = (1, 1, 1),
        isoFaceArea = (0, 0, 2)\<rparr>) (1 / 10 ^ 10) [1 / 2] 0 = Some vzero
   \<and> getNormal (\<lambda>c a t n. \<lparr>cellStatus = 0, isoValue = 0, isoFaceCentre = (1, 1, 1),
        isoFaceArea = (0, 0, 2)\<rparr>) (1 / 10 ^ 10) [1 / 2] 0 = Some (0, 0, 1)"
  using getNormal_semantics [of "\<lambda>c a t n. \<lparr>cellStatus = 1, isoValue = 0,
        isoFaceCentre = (1, 1, 1), isoFaceArea = (0, 0, 2)\<rparr>" "1 / 10 ^ 10" "[1 / 2]" 0]
    getNormal_semantics [of "\<lambda>c a t n. \<lparr>cellStatus = 0, isoValue = 0,
        isoFaceCentre = (1, 1, 1), isoFaceArea = (0, 0, 2)\<rparr>" "1 / 10 ^ 10" "[1 / 2]" 0]
  by (simp add: cellIsCut_def cutCell_def unitNormal_def vdiv_def vmag_def vscale_def vzero_def)


section \<open>Lists, sums and the arithmetic of one face\<close>

lemma nth_list_update_any:
  "(xs[i := v]) ! j = (if i = j \<and> i < length xs then v else xs ! j)"
  by (cases "i < length xs") (auto simp add: nth_list_update not_less list_update_beyond)

lemma netFlux_sum_list:
  "netFlux mesh dVfs celli =
     sum_list (map (\<lambda>facei. if faceOwner mesh ! facei = celli then dVfs ! facei else - (dVfs ! facei))
                   (cells mesh ! celli))"
proof -
  have "fold (\<lambda>facei dV. if faceOwner mesh ! facei = celli then dV + dVfs ! facei else dV - dVfs ! facei) fs a
        = a + sum_list (map (\<lambda>facei. if faceOwner mesh ! facei = celli then dVfs ! facei else - (dVfs ! facei)) fs)"
    for fs a
    by (induction fs arbitrary: a) simp_all
  from this [of "cells mesh ! celli" 0] show ?thesis
    unfolding netFlux_def faceValue_def by simp
qed

lemma face_step_real:
  fixes q d share s :: real
  assumes "0 \<le> share" "\<bar>d\<bar> \<le> \<bar>q\<bar>" "(s = 1 \<and> 0 \<le> q) \<or> (s = - 1 \<and> q \<le> 0)"
  shows "\<bar>d + s * min share \<bar>q - d\<bar>\<bar> \<le> \<bar>q\<bar>"
    and "\<bar>q - (d + s * min share \<bar>q - d\<bar>)\<bar> = \<bar>q - d\<bar> - min share \<bar>q - d\<bar>"
  using assms by (auto simp add: min_def abs_if split: if_splits)

lemma sign_flux:
  "0 \<le> dt \<Longrightarrow> (sign p = 1 \<and> 0 \<le> p * dt) \<or> (sign p = - 1 \<and> p * dt \<le> 0)"
  by (auto simp add: sign_def mult_nonpos_nonneg not_le intro: less_imp_le)

lemma face_step_portion:
  fixes q d share s :: real
  assumes "0 \<le> share" "(0 \<le> d \<and> d \<le> q) \<or> (q \<le> d \<and> d \<le> 0)"
    "(s = 1 \<and> 0 \<le> q) \<or> (s = - 1 \<and> q \<le> 0)"
  shows "(0 \<le> d + s * min share \<bar>q - d\<bar> \<and> d + s * min share \<bar>q - d\<bar> \<le> q)
       \<or> (q \<le> d + s * min share \<bar>q - d\<bar> \<and> d + s * min share \<bar>q - d\<bar> \<le> 0)"
  using assms by (auto simp add: min_def abs_if split: if_splits)

section \<open>The second loop over the faces\<close>

lemma labelOf_pos0: "labelOf (pos0 x) = (if 0 \<le> x then 1 else 0)"
  by (simp add: labelOf_def pos0_def)

lemma pass_fields:
  "isBounded (passFluidThroughFace mesh ctl dVf0 tot F first f b) = isBounded b"
  "alphaOvershoot (passFluidThroughFace mesh ctl dVf0 tot F first f b) = alphaOvershoot b"
  "fluidToPassOn (passFluidThroughFace mesh ctl dVf0 tot F first f b) = fluidToPassOn b"
  "firstLoop (passFluidThroughFace mesh ctl dVf0 tot F first f b) = firstLoop b"
  "length (dVfW (passFluidThroughFace mesh ctl dVf0 tot F first f b)) = length (dVfW b)"
  "correctedFaces (passFluidThroughFace mesh ctl dVf0 tot F first f b) =
     correctedFaces b @ (if first then [f] else [])"
  "dVfW (passFluidThroughFace mesh ctl dVf0 tot F first f b) =
     (dVfW b)[f := dVfW b ! f + sign (phi ctl ! f) * passedThroughFace ctl dVf0 tot F f]"
  "nFacesToPassFluidThrough (passFluidThroughFace mesh ctl dVf0 tot F first f b) =
     nFacesToPassFluidThrough b
       + (if fluidToPassThroughFace ctl F tot f \<le> maxExtraFaceFluidTrans ctl dVf0 f then 1 else 0)"
  by (simp_all add: passFluidThroughFace_def Let_def setFaceValue_def faceValue_def
      passedThroughFace_def labelOf_pos0)

lemma fold_pass_fields:
  "isBounded (fold (passFluidThroughFace mesh ctl dVf0 tot F first) fs b) = isBounded b"
  "alphaOvershoot (fold (passFluidThroughFace mesh ctl dVf0 tot F first) fs b) = alphaOvershoot b"
  "fluidToPassOn (fold (passFluidThroughFace mesh ctl dVf0 tot F first) fs b) = fluidToPassOn b"
  "firstLoop (fold (passFluidThroughFace mesh ctl dVf0 tot F first) fs b) = firstLoop b"
  "length (dVfW (fold (passFluidThroughFace mesh ctl dVf0 tot F first) fs b)) = length (dVfW b)"
  "correctedFaces (fold (passFluidThroughFace mesh ctl dVf0 tot F first) fs b) =
     correctedFaces b @ (if first then fs else [])"
  "nFacesToPassFluidThrough (fold (passFluidThroughFace mesh ctl dVf0 tot F first) fs b) =
     nFacesToPassFluidThrough b
       + length (filter (\<lambda>f. fluidToPassThroughFace ctl F tot f \<le> maxExtraFaceFluidTrans ctl dVf0 f) fs)"
  by (induction fs arbitrary: b) (simp_all add: pass_fields)

lemma fold_pass_dVfW:
  "distinct fs \<Longrightarrow>
   dVfW (fold (passFluidThroughFace mesh ctl dVf0 tot F first) fs b) ! f =
     (if f \<in> set fs \<and> f < length (dVfW b)
      then dVfW b ! f + sign (phi ctl ! f) * passedThroughFace ctl dVf0 tot F f
      else dVfW b ! f)"
proof (induction fs arbitrary: b)
  case Nil
  then show ?case by simp
next
  case (Cons g fs)
  then show ?case
    by (auto simp add: pass_fields nth_list_update_any)
qed

section \<open>Rules for the loops\<close>

lemma whileOvershoot_rule:
  assumes run: "whileOvershoot mesh ctl alpha1 celli b = Some b'"
    and init: "I b"
    and step: "\<And>b. I b \<Longrightarrow> alphaOvershoot b > aTolBound \<Longrightarrow> nFacesToPassFluidThrough b > 0
                 \<Longrightarrow> I (redistribute mesh ctl alpha1 celli b)"
  shows "I b' \<and> \<not> (alphaOvershoot b' > aTolBound \<and> nFacesToPassFluidThrough b' > 0)"
proof -
  let ?P = "\<lambda>m c a ce x y. m = mesh \<and> c = ctl \<and> a = alpha1 \<and> ce = celli \<longrightarrow> I x
        \<longrightarrow> I y \<and> \<not> (alphaOvershoot y > aTolBound \<and> nFacesToPassFluidThrough y > 0)"
  have "?P mesh ctl alpha1 celli b b'"
  proof (rule whileOvershoot.raw_induct [where P = ?P, OF _ run])
    fix w m c a ce x y
    assume IH: "\<And>m c a ce x y. w m c a ce x = Some y \<Longrightarrow> ?P m c a ce x y"
      and eq: "(if aTolBound < alphaOvershoot x \<and> 0 < nFacesToPassFluidThrough x
                then w m c a ce (redistribute m c a ce x) else Some x) = Some y"
    show "?P m c a ce x y"
    proof (cases "aTolBound < alphaOvershoot x \<and> 0 < nFacesToPassFluidThrough x")
      case True
      with eq have "w m c a ce (redistribute m c a ce x) = Some y" by simp
      from IH [OF this] True step show ?thesis by blast
    next
      case False
      with eq have "y = x" by simp
      with False show ?thesis by blast
    qed
  qed
  with init show ?thesis by simp
qed

lemma forAllM_rule:
  assumes "forAllM body xs s = Some s'" "I s"
    and "\<And>x s s'. x \<in> set xs \<Longrightarrow> I s \<Longrightarrow> body x s = Some s' \<Longrightarrow> I s'"
  shows "I s'"
  using assms
proof (induction xs arbitrary: s)
  case Nil
  then show ?case by simp
next
  case (Cons x xs)
  from Cons.prems(1) obtain s1 where s1: "body x s = Some s1" and rest: "forAllM body xs s1 = Some s'"
    by (auto split: option.splits)
  have "I s1" using Cons.prems(2,3) s1 by auto
  from Cons.IH [OF rest this] Cons.prems(3) show ?case by auto
qed

section \<open>One turn of the loop of a cell\<close>

lemma redistribute_fields:
  "length (dVfW (redistribute mesh ctl alpha1 celli b)) = length (dVfW b)"
  "firstLoop (redistribute mesh ctl alpha1 celli b) = False"
  "alphaOvershoot (redistribute mesh ctl alpha1 celli b) =
     alpha1 ! celli - netFlux mesh (dVfW (redistribute mesh ctl alpha1 celli b)) celli
                        / (cellVolumes mesh ! celli) - 1"
  "fluidToPassOn (redistribute mesh ctl alpha1 celli b) =
     alphaOvershoot (redistribute mesh ctl alpha1 celli b) * (cellVolumes mesh ! celli)"
  "correctedFaces (redistribute mesh ctl alpha1 celli b) =
     correctedFaces b @ (if firstLoop b then facesToPassFluidThrough mesh ctl (dVfW b) celli else [])"
  "nFacesToPassFluidThrough (redistribute mesh ctl alpha1 celli b) =
     length (filter (\<lambda>f. fluidToPassThroughFace ctl (fluidToPassOn b)
                            (dVftot ctl (facesToPassFluidThrough mesh ctl (dVfW b) celli)) f
                          \<le> maxExtraFaceFluidTrans ctl (dVfW b) f)
               (facesToPassFluidThrough mesh ctl (dVfW b) celli))"
  by (simp_all add: redistribute_def Let_def fold_pass_fields)

lemma distinct_facesToPass:
  "distinct (cells mesh ! celli) \<Longrightarrow> distinct (facesToPassFluidThrough mesh ctl dVfs celli)"
  by (simp add: facesToPassFluidThrough_def setDownwindFaces_def)

lemma redistribute_dVfW:
  "distinct (cells mesh ! celli) \<Longrightarrow>
   dVfW (redistribute mesh ctl alpha1 celli b) ! f =
     (if f \<in> set (facesToPassFluidThrough mesh ctl (dVfW b) celli) \<and> f < length (dVfW b)
      then dVfW b ! f + sign (phi ctl ! f)
             * passedThroughFace ctl (dVfW b)
                 (dVftot ctl (facesToPassFluidThrough mesh ctl (dVfW b) celli)) (fluidToPassOn b) f
      else dVfW b ! f)"
  by (simp add: redistribute_def Let_def fold_pass_dVfW distinct_facesToPass)

lemma portion_imp_capacity: "portion q d \<Longrightarrow> \<bar>d\<bar> \<le> \<bar>q\<bar>"
  by (auto simp add: portion_def)

lemma portion_spare: "portion q d \<Longrightarrow> \<bar>q - d\<bar> = \<bar>q\<bar> - \<bar>d\<bar>"
  by (auto simp add: portion_def)

lemma portion_complement: "portion q (q - d) = portion q d"
  by (auto simp add: portion_def)

lemma portionInvariant_imp_capacity: "portionInvariant ctl dVfs \<Longrightarrow> capacityInvariant ctl dVfs"
  by (simp add: portionInvariant_def capacityInvariant_def mag_def portion_imp_capacity)

lemma dVftot_nonneg: "0 \<le> dVftot ctl faces"
  by (auto simp add: dVftot_def mag_def intro!: sum_list_nonneg)

lemma share_nonneg: "0 \<le> F \<Longrightarrow> 0 \<le> fluidToPassThroughFace ctl F (dVftot ctl faces) f"
  by (simp add: fluidToPassThroughFace_def mag_def dVftot_nonneg)

lemma passed_nonneg: "0 \<le> F \<Longrightarrow> 0 \<le> passedThroughFace ctl dVfs (dVftot ctl faces) F f"
  by (simp add: passedThroughFace_def share_nonneg maxExtraFaceFluidTrans_def mag_def)

lemma passed_le_maxExtra: "passedThroughFace ctl dVfs tot F f \<le> maxExtraFaceFluidTrans ctl dVfs f"
  by (simp add: passedThroughFace_def)

lemma face_capacity_step:
  assumes "0 \<le> F" "0 \<le> deltaT ctl" "mag (dVfs ! f) \<le> mag (phi ctl ! f * deltaT ctl)"
  shows "mag (dVfs ! f + sign (phi ctl ! f) * passedThroughFace ctl dVfs (dVftot ctl faces) F f)
           \<le> mag (phi ctl ! f * deltaT ctl)"
    and "maxExtraFaceFluidTrans ctl
           (dVfs[f := dVfs ! f + sign (phi ctl ! f) * passedThroughFace ctl dVfs (dVftot ctl faces) F f]) f
         = (if f < length dVfs
            then maxExtraFaceFluidTrans ctl dVfs f - passedThroughFace ctl dVfs (dVftot ctl faces) F f
            else maxExtraFaceFluidTrans ctl dVfs f)"
  using face_step_real [OF share_nonneg [OF assms(1), of ctl faces f] assms(3) [unfolded mag_def]
      sign_flux [OF assms(2), of "phi ctl ! f"]]
  by (simp_all add: passedThroughFace_def maxExtraFaceFluidTrans_def mag_def faceValue_def
      nth_list_update_any)

lemma face_portion_step:
  assumes "0 \<le> F" "0 \<le> deltaT ctl" "portion (phi ctl ! f * deltaT ctl) (dVfs ! f)"
  shows "portion (phi ctl ! f * deltaT ctl)
           (dVfs ! f + sign (phi ctl ! f) * passedThroughFace ctl dVfs (dVftot ctl faces) F f)"
  using face_step_portion [OF share_nonneg [OF assms(1), of ctl faces f] assms(3) [unfolded portion_def]
      sign_flux [OF assms(2), of "phi ctl ! f"]]
  by (simp add: passedThroughFace_def maxExtraFaceFluidTrans_def mag_def faceValue_def portion_def)

lemma redistribute_capacity:
  assumes "distinct (cells mesh ! celli)" "0 \<le> fluidToPassOn b" "0 \<le> deltaT ctl"
    "capacityInvariant ctl (dVfW b)"
  shows "capacityInvariant ctl (dVfW (redistribute mesh ctl alpha1 celli b))"
  using assms face_capacity_step(1) [of "fluidToPassOn b" ctl "dVfW b"]
  by (simp add: capacityInvariant_def redistribute_fields redistribute_dVfW)

lemma redistribute_portion:
  assumes "distinct (cells mesh ! celli)" "0 \<le> fluidToPassOn b" "0 \<le> deltaT ctl"
    "portionInvariant ctl (dVfW b)"
  shows "portionInvariant ctl (dVfW (redistribute mesh ctl alpha1 celli b))"
  using assms face_portion_step [of "fluidToPassOn b" ctl _ "dVfW b"]
  by (simp add: portionInvariant_def redistribute_fields redistribute_dVfW)

section \<open>Invariants of bounding from above\<close>

lemma aTolBound_pos: "0 < aTolBound"
  by (simp add: aTolBound_def SMALL_pos)

lemma boundCell_invariant:
  assumes run: "boundCell mesh ctl checkB alpha1 celli b = Some b'"
    and inv: "Inv (dVfW b)"
    and vol: "0 \<le> cellVolumes mesh ! celli"
    and step: "\<And>b. Inv (dVfW b) \<Longrightarrow> 0 \<le> fluidToPassOn b
                 \<Longrightarrow> Inv (dVfW (redistribute mesh ctl alpha1 celli b))"
  shows "Inv (dVfW b') \<and> length (dVfW b') = length (dVfW b)"
proof (cases "checkB ! celli")
  case False
  with run inv show ?thesis by (simp add: boundCell_def)
next
  case True
  let ?I = "\<lambda>x. Inv (dVfW x) \<and> length (dVfW x) = length (dVfW b)
              \<and> fluidToPassOn x = alphaOvershoot x * (cellVolumes mesh ! celli)"
  from True run obtain b0 where b0: "whileOvershoot mesh ctl alpha1 celli b0 = Some b'"
    and init: "?I b0"
    using inv by (auto simp add: boundCell_def Let_def)
  have "?I (redistribute mesh ctl alpha1 celli x)"
    if "?I x" "alphaOvershoot x > aTolBound" for x
  proof -
    have "0 \<le> fluidToPassOn x" using that vol aTolBound_pos by simp
    with that step show ?thesis by (simp add: redistribute_fields)
  qed
  from whileOvershoot_rule [where I = ?I, OF b0 init this] show ?thesis by simp
qed

lemma boundFromAbove_invariant:
  assumes run: "boundFromAbove mesh ctl checkB alpha1 dVfs bounded pend = Some b"
    and inv: "Inv dVfs"
    and vol: "\<And>celli. celli < length alpha1 \<Longrightarrow> 0 \<le> cellVolumes mesh ! celli"
    and step: "\<And>celli b. celli < length alpha1 \<Longrightarrow> Inv (dVfW b) \<Longrightarrow> 0 \<le> fluidToPassOn b
                 \<Longrightarrow> Inv (dVfW (redistribute mesh ctl alpha1 celli b))"
  shows "Inv (dVfW b) \<and> length (dVfW b) = length dVfs"
proof -
  let ?I = "\<lambda>x. Inv (dVfW x) \<and> length (dVfW x) = length dVfs"
  show ?thesis
  proof (rule forAllM_rule [where I = ?I, OF run [unfolded boundFromAbove_def]])
    show "?I \<lparr>dVfW = dVfs, correctedFaces = [], isBounded = bounded, pendingFaces = pend,
        alphaOvershoot = 0, fluidToPassOn = 0, nFacesToPassFluidThrough = 0, firstLoop = False\<rparr>"
      using inv by simp
  next
    fix celli s s'
    assume "celli \<in> set [0..<length alpha1]" "?I s" "boundCell mesh ctl checkB alpha1 celli s = Some s'"
    then show "?I s'"
      using boundCell_invariant [where Inv = Inv, of mesh ctl checkB alpha1 celli s s'] vol step
      by simp
  qed
qed

lemma merge_nth:
  "fold (\<lambda>facei d. setFaceValue d facei (g facei)) fs d0 ! f =
     (if f \<in> set fs \<and> f < length d0 then g f else d0 ! f)"
  "length (fold (\<lambda>facei d. setFaceValue d facei (g facei)) fs d0) = length d0"
  by (induction fs arbitrary: d0) (auto simp add: setFaceValue_def nth_list_update_any)

lemma combineFluxes_length: "length (combineFluxes start msg d) = length d"
proof -
  have "length (fold (\<lambda>i d. d[start + ids ! i := - (vals ! i)]) is d) = length d"
    for ids :: "nat list" and vals :: "real list" and "is" d
    by (induction "is" arbitrary: d) simp_all
  then show ?thesis by (cases msg) (simp add: combineFluxes_def)
qed

lemma combineFluxes_invariant:
  assumes "\<forall>i < length (fst msg). P (start + fst msg ! i) (- (snd msg ! i))"
    and "\<forall>f < length d. P f (d ! f)"
  shows "\<forall>f < length d. P f (combineFluxes start msg d ! f)"
proof -
  obtain ids vals where msg: "msg = (ids, vals)" by (cases msg)
  have "\<forall>f < length d. P f (fold (\<lambda>i d. d[start + ids ! i := - (vals ! i)]) is d ! f)"
    if "\<forall>i \<in> set is. P (start + ids ! i) (- (vals ! i))" "\<forall>f < length d. P f (d ! f)" for "is" d
    using that
  proof (induction "is" arbitrary: d)
    case Nil
    then show ?case by simp
  next
    case (Cons i "is")
    have "\<forall>f<length (d[start + ids ! i := - (vals ! i)]). P f (d[start + ids ! i := - (vals ! i)] ! f)"
      using Cons.prems by (simp add: nth_list_update_any)
    from Cons.IH [OF _ this] Cons.prems(1) show ?case by simp
  qed
  from this [of "[0..<length ids]" d] assms show ?thesis
    by (simp add: msg combineFluxes_def)
qed

section \<open>Invariants of the bounding loop\<close>

lemma fold_combine_length:
  "length (fold (\<lambda>patchi. combineFluxes (s patchi) (r patchi)) ps d) = length d"
  by (induction ps arbitrary: d) (simp_all add: combineFluxes_length)

lemma sync_length: "length (dVf (syncProcPatches mesh ctl st)) = length (dVf st)"
  using fold_combine_length [of "\<lambda>patchi. pstart (boundaryMesh mesh ! patchi)"
      "received ctl (nSync st)" "procPatchLabels ctl" "dVf st"]
  by (simp add: syncProcPatches_def)

lemma sync_fields:
  "alpha1In (syncProcPatches mesh ctl st) = alpha1In st"
  "checkBounding (syncProcPatches mesh ctl st) = checkBounding st"
  "cellIsBounded (syncProcPatches mesh ctl st) = cellIsBounded st"
  by (simp_all add: syncProcPatches_def)

lemma sync_serial: "\<not> parRun ctl \<Longrightarrow> dVf (syncProcPatches mesh ctl st) = dVf st"
  by (simp add: syncProcPatches_def)

lemma fold_writes_untouched:
  "a \<notin> fst ` set ws \<Longrightarrow> fold (\<lambda>w d. d[fst w := - snd w]) ws d ! a = d ! a"
  by (induction ws arbitrary: d) (auto simp add: nth_list_update_any)

lemma fold_writes_length: "length (fold (\<lambda>w d. d[fst w := - snd w]) ws d) = length d"
  by (induction ws arbitrary: d) simp_all

lemma fold_writes_nth:
  assumes "(a, v) \<in> set ws" "unambiguous ws" "a < length d"
  shows "fold (\<lambda>w d. d[fst w := - snd w]) ws d ! a = - v"
  using assms
proof (induction ws arbitrary: d)
  case Nil
  then show ?case by simp
next
  case (Cons w ws)
  note amb = Cons.prems(2) [unfolded unambiguous_def, rule_format]
  have un: "unambiguous ws"
    unfolding unambiguous_def
  proof (intro ballI impI)
    fix p q
    assume "p \<in> set ws" "q \<in> set ws" "fst p = fst q"
    then show "snd p = snd q" using amb [of p q] by simp
  qed
  have same: "snd p = v" if "p \<in> set (w # ws)" "fst p = a" for p
    using amb [OF that(1) Cons.prems(1)] that(2) by simp
  show ?case
  proof (cases "a \<in> fst ` set ws")
    case True
    then obtain p where p: "p \<in> set ws" "fst p = a" by (auto simp add: image_iff)
    then have "snd p = v" using same [of p] by simp
    with p(2) have "p = (a, v)" by (simp add: prod_eq_iff)
    with p(1) have "(a, v) \<in> set ws" by simp
    from Cons.IH [OF this un] Cons.prems(3) show ?thesis by simp
  next
    case False
    have "(a, v) \<notin> set ws"
    proof
      assume "(a, v) \<in> set ws"
      then have "fst (a, v) \<in> fst ` set ws" by (rule imageI)
      with False show False by simp
    qed
    with Cons.prems(1) have "w = (a, v)" by simp
    with False Cons.prems(3) show ?thesis by (simp add: fold_writes_untouched)
  qed
qed

lemma combineFluxes_writes:
  "combineFluxes start (faceIDs, nbrdVfs) d
     = fold (\<lambda>w d. d[fst w := - snd w])
         (map (\<lambda>i. (start + faceIDs ! i, nbrdVfs ! i)) [0..<length faceIDs]) d"
  by (simp add: combineFluxes_def fold_map comp_def)

lemma sync_writes:
  "parRun ctl \<Longrightarrow>
     dVf (syncProcPatches mesh ctl st)
       = fold (\<lambda>w d. d[fst w := - snd w]) (receivedPairs mesh ctl (nSync st)) (dVf st)"
proof -
  have "fold (\<lambda>patchi. combineFluxes (pstart (boundaryMesh mesh ! patchi)) (received ctl k patchi)) ps d
        = fold (\<lambda>w d. d[fst w := - snd w])
            (concat (map (\<lambda>patchi. case received ctl k patchi of (faceIDs, nbrdVfs) \<Rightarrow>
                    map (\<lambda>i. (pstart (boundaryMesh mesh ! patchi) + faceIDs ! i, nbrdVfs ! i))
                        [0..<length faceIDs]) ps)) d" for ps d k
    by (induction ps arbitrary: d) (auto simp add: combineFluxes_writes split: prod.splits)
  then show "parRun ctl \<Longrightarrow> ?thesis"
    by (simp add: syncProcPatches_def receivedPairs_def)
qed

lemma sync_unnamed:
  assumes "parRun ctl \<longrightarrow> f \<notin> fst ` set (receivedPairs mesh ctl (nSync st))"
  shows "dVf (syncProcPatches mesh ctl st) ! f = dVf st ! f"
proof (cases "parRun ctl")
  case True
  with assms show ?thesis by (simp add: sync_writes fold_writes_untouched)
next
  case False
  then show ?thesis by (simp add: sync_serial)
qed

lemma fold_combine_invariant:
  assumes "\<forall>patchi \<in> set ps. \<forall>i < length (fst (r patchi)). P (s patchi + fst (r patchi) ! i) (- (snd (r patchi) ! i))"
    and "\<forall>f < length d. P f (d ! f)"
  shows "\<forall>f < length d. P f (fold (\<lambda>patchi. combineFluxes (s patchi) (r patchi)) ps d ! f)"
  using assms
proof (induction ps arbitrary: d)
  case Nil
  then show ?case by simp
next
  case (Cons p ps)
  have "\<forall>f < length (combineFluxes (s p) (r p) d). P f (combineFluxes (s p) (r p) d ! f)"
    using combineFluxes_invariant [of "r p" P "s p" d] Cons.prems by (simp add: combineFluxes_length)
  from Cons.IH [OF _ this] Cons.prems(1) show ?case by (simp add: combineFluxes_length)
qed

lemma sync_portion:
  assumes "portionInvariant ctl (dVf st)" "parRun ctl \<longrightarrow> receivedWithin mesh ctl"
  shows "portionInvariant ctl (dVf (syncProcPatches mesh ctl st))"
proof (cases "parRun ctl")
  case False
  with assms show ?thesis by (simp add: sync_serial)
next
  case True
  with assms have "receivedWithin mesh ctl" by simp
  then have "\<forall>patchi \<in> set (procPatchLabels ctl).
      \<forall>i < length (fst (received ctl (nSync st) patchi)).
        portion (phi ctl ! (pstart (boundaryMesh mesh ! patchi) + fst (received ctl (nSync st) patchi) ! i)
                   * deltaT ctl) (- (snd (received ctl (nSync st) patchi) ! i))"
    unfolding receivedWithin_def by blast
  from fold_combine_invariant [where P = "\<lambda>f d. portion (phi ctl ! f * deltaT ctl) d"
      and s = "\<lambda>patchi. pstart (boundaryMesh mesh ! patchi)"
      and r = "received ctl (nSync st)", OF this] assms(1) True
  show ?thesis
    using fold_combine_length [of "\<lambda>patchi. pstart (boundaryMesh mesh ! patchi)"
      "received ctl (nSync st)" "procPatchLabels ctl" "dVf st"]
    by (simp add: portionInvariant_def syncProcPatches_def)
qed

lemma complementField_nth:
  "length (phi ctl) = length dVfs \<Longrightarrow> f < length dVfs \<Longrightarrow>
     complementField ctl dVfs ! f = phi ctl ! f * deltaT ctl - dVfs ! f"
  "length (phi ctl) = length dVfs \<Longrightarrow> length (complementField ctl dVfs) = length dVfs"
  by (simp_all add: complementField_def)

lemma complementField_portion:
  "length (phi ctl) = length dVfs \<Longrightarrow>
     portionInvariant ctl (complementField ctl dVfs) = portionInvariant ctl dVfs"
  by (simp add: portionInvariant_def complementField_nth portion_complement)

lemma consistent_redistribute_portion:
  assumes "consistent mesh ctl st" "length alpha1 = length (alpha1In st)" "celli < length alpha1"
    "portionInvariant ctl (dVfW b)" "0 \<le> fluidToPassOn b"
  shows "portionInvariant ctl (dVfW (redistribute mesh ctl alpha1 celli b))"
  using assms by (intro redistribute_portion) (simp_all add: consistent_def meshOK_def)

lemma consistent_volume:
  "consistent mesh ctl st \<Longrightarrow> celli < length (alpha1In st) \<Longrightarrow> 0 \<le> cellVolumes mesh ! celli"
  by (simp add: consistent_def meshOK_def less_imp_le)

lemma boundAbove_portion:
  assumes run: "boundAbove mesh ctl st = Some st'"
    and con: "consistent mesh ctl st"
    and inv: "portionInvariant ctl (dVf st)"
  shows "portionInvariant ctl (dVf st') \<and> consistent mesh ctl st'"
proof -
  from run obtain b where b: "boundFromAbove mesh ctl (checkBounding st) (alpha1In st) (dVf st)
        (cellIsBounded st) (surfaceCellFacesOnProcPatches st) = Some b"
    and st': "st' = syncProcPatches mesh ctl
            (st\<lparr>dVf := fold (\<lambda>facei d. setFaceValue d facei (faceValue (dVfW b) facei))
                              (correctedFaces b) (dVf st),
                cellIsBounded := isBounded b,
                surfaceCellFacesOnProcPatches := pendingFaces b,
                log := log st @ [BoundAbove, Merged]\<rparr>)"
    by (auto simp add: boundAbove_def split: option.splits)
  have "portionInvariant ctl (dVfW b) \<and> length (dVfW b) = length (dVf st)"
    using boundFromAbove_invariant [where Inv = "portionInvariant ctl", OF b inv]
      consistent_volume [OF con] consistent_redistribute_portion [OF con] by simp
  then have "portionInvariant ctl (fold (\<lambda>facei d. setFaceValue d facei (faceValue (dVfW b) facei))
                              (correctedFaces b) (dVf st))"
    using inv by (simp add: portionInvariant_def merge_nth faceValue_def)
  then show ?thesis
    using con by (simp add: st' sync_portion sync_fields sync_length consistent_def merge_nth)
qed

lemma boundBelow_portion:
  assumes run: "boundBelow mesh ctl st = Some st'"
    and con: "consistent mesh ctl st"
    and inv: "portionInvariant ctl (dVf st)"
  shows "portionInvariant ctl (dVf st') \<and> consistent mesh ctl st'"
proof -
  let ?alpha2 = "map (\<lambda>a. 1 - a) (alpha1In st)"
  from run obtain b where b: "boundFromAbove mesh ctl (checkBounding st) ?alpha2
        (complementField ctl (dVf st)) (cellIsBounded st) (surfaceCellFacesOnProcPatches st) = Some b"
    and st': "st' = syncProcPatches mesh ctl
               (st\<lparr>dVf := fold (\<lambda>facei d. setFaceValue d facei
                                    (faceValue (phi ctl) facei * deltaT ctl
                                       - faceValue (dVfW b) facei))
                                 (correctedFaces b) (dVf st),
                   cellIsBounded := isBounded b,
                   surfaceCellFacesOnProcPatches := pendingFaces b,
                   log := log st @ [BoundBelow, Merged]\<rparr>)"
    by (auto simp add: boundBelow_def Let_def split: option.splits)
  have len: "length (phi ctl) = length (dVf st)" using con by (simp add: consistent_def)
  have "portionInvariant ctl (complementField ctl (dVf st))"
    using inv len by (simp add: complementField_portion)
  from boundFromAbove_invariant [where Inv = "portionInvariant ctl", OF b this]
  have "portionInvariant ctl (dVfW b) \<and> length (dVfW b) = length (dVf st)"
    using consistent_volume [OF con] consistent_redistribute_portion [OF con, of ?alpha2] len
    by (simp add: complementField_nth)
  then have "portionInvariant ctl (fold (\<lambda>facei d. setFaceValue d facei
                 (faceValue (phi ctl) facei * deltaT ctl - faceValue (dVfW b) facei))
                              (correctedFaces b) (dVf st))"
    using inv by (simp add: portionInvariant_def merge_nth faceValue_def portion_complement)
  then show ?thesis
    using con by (simp add: st' sync_portion sync_fields sync_length consistent_def merge_nth)
qed

lemma boundingStep_portion:
  assumes "boundingStep mesh ctl mx mn st = Some st'" "consistent mesh ctl st"
    "portionInvariant ctl (dVf st)"
  shows "portionInvariant ctl (dVf st') \<and> consistent mesh ctl st'"
proof -
  from assms(1) obtain st1 where
    s1: "(if mx > aTolLimit then boundAbove mesh ctl st else Some st) = Some st1"
    and s2: "(if mn < - aTolLimit then boundBelow mesh ctl st1 else Some st1) = Some st'"
    by (auto simp add: boundingStep_def split: option.splits)
  have "portionInvariant ctl (dVf st1) \<and> consistent mesh ctl st1"
    using s1 boundAbove_portion [of mesh ctl st st1] assms(2,3) by (auto split: if_splits)
  then show ?thesis
    using s2 boundBelow_portion [of mesh ctl st1 st'] by (auto split: if_splits)
qed

lemma limitFluxes_portion:
  assumes "limitFluxes mesh ctl st = Some st'" "consistent mesh ctl st"
    "portionInvariant ctl (dVf st)"
  shows "portionInvariant ctl (dVf st') \<and> consistent mesh ctl st'"
proof -
  let ?I = "\<lambda>s. portionInvariant ctl (dVf s) \<and> consistent mesh ctl s"
  show ?thesis
  proof (rule forAllM_rule [where I = ?I, OF assms(1) [unfolded limitFluxes_def Let_def]])
    show "?I (st\<lparr>cellIsBounded := assignList (cellIsBoundedSize st) False (cellIsBounded st)\<rparr>)"
      using assms(2,3) by (simp add: consistent_def)
  next
    fix n s s'
    assume "?I s" "boundingStep mesh ctl
        (gMax (parRun ctl) (alphaNewElsewhere ctl) (alphaMinusSurfaceIntegrate mesh (alpha1In st) (dVf st)) - 1)
        (gMin (parRun ctl) (alphaNewElsewhere ctl) (alphaMinusSurfaceIntegrate mesh (alpha1In st) (dVf st))) s = Some s'"
    then show "?I s'" using boundingStep_portion by blast
  qed
qed

section \<open>The net flux after one turn\<close>

lemma facesToPass_downwind:
  "f \<in> set (facesToPassFluidThrough mesh ctl dVfs celli) \<Longrightarrow>
     f \<in> set (cells mesh ! celli) \<and> isDownwindFace mesh (phi ctl) celli f
     \<and> maxExtraFaceFluidTrans ctl dVfs f / (cellVolumes mesh ! celli) > aTolBound"
  by (simp add: facesToPassFluidThrough_def setDownwindFaces_def)

lemma facesToPass_filter:
  "facesToPassFluidThrough mesh ctl dVfs celli =
     filter (\<lambda>f. f \<in> set (facesToPassFluidThrough mesh ctl dVfs celli)) (cells mesh ! celli)"
  by (auto simp add: facesToPassFluidThrough_def setDownwindFaces_def intro: filter_cong)

lemma downwind_sign:
  "isDownwindFace mesh (phi ctl) celli f \<Longrightarrow>
     (if faceOwner mesh ! f = celli then sign (phi ctl ! f) = 1 else sign (phi ctl ! f) = - 1)
     \<and> phi ctl ! f \<noteq> 0"
  using SMALL_pos by (auto simp add: isDownwindFace_def faceValue_def sign_def split: if_splits)

lemma redistribute_netFlux:
  assumes dist: "distinct (cells mesh ! celli)"
    and rng: "\<forall>f \<in> set (cells mesh ! celli). f < length (dVfW b)"
  shows "netFlux mesh (dVfW (redistribute mesh ctl alpha1 celli b)) celli =
           netFlux mesh (dVfW b) celli
           + sum_list (map (passedThroughFace ctl (dVfW b)
                 (dVftot ctl (facesToPassFluidThrough mesh ctl (dVfW b) celli)) (fluidToPassOn b))
               (facesToPassFluidThrough mesh ctl (dVfW b) celli))"
proof -
  let ?E = "facesToPassFluidThrough mesh ctl (dVfW b) celli"
  let ?p = "passedThroughFace ctl (dVfW b) (dVftot ctl ?E) (fluidToPassOn b)"
  let ?d' = "dVfW (redistribute mesh ctl alpha1 celli b)"
  let ?part = "\<lambda>d f. if faceOwner mesh ! f = celli then d ! f else - (d ! f)"
  have "?part ?d' f = ?part (dVfW b) f + (if f \<in> set ?E then ?p f else 0)"
    if "f \<in> set (cells mesh ! celli)" for f
    using that rng downwind_sign [of mesh ctl celli f] facesToPass_downwind [of f mesh ctl "dVfW b" celli]
    by (simp add: redistribute_dVfW [OF dist])
  then have "map (?part ?d') (cells mesh ! celli)
        = map (\<lambda>f. ?part (dVfW b) f + (if f \<in> set ?E then ?p f else 0)) (cells mesh ! celli)"
    by simp
  then have "netFlux mesh ?d' celli
        = sum_list (map (\<lambda>f. ?part (dVfW b) f + (if f \<in> set ?E then ?p f else 0)) (cells mesh ! celli))"
    by (simp only: netFlux_sum_list)
  also have "\<dots> = netFlux mesh (dVfW b) celli
        + sum_list (map ?p (filter (\<lambda>f. f \<in> set ?E) (cells mesh ! celli)))"
    by (simp only: sum_list_addf sum_list_map_filter' netFlux_sum_list)
  finally show ?thesis
    using facesToPass_filter [of mesh ctl "dVfW b" celli] by simp
qed

lemma dVftot_pos:
  assumes "0 < deltaT ctl" "faces \<noteq> []" "\<forall>f \<in> set faces. phi ctl ! f \<noteq> 0"
  shows "0 < dVftot ctl faces"
proof -
  obtain f fs where fs: "faces = f # fs" using assms(2) by (cases faces) auto
  have "0 < mag (phi ctl ! f * deltaT ctl)" using assms(1,3) fs by (simp add: mag_def)
  moreover have "0 \<le> dVftot ctl fs" by (rule dVftot_nonneg)
  ultimately show ?thesis by (simp add: fs dVftot_def faceValue_def)
qed

lemma sum_shares:
  assumes "dVftot ctl faces \<noteq> 0"
  shows "sum_list (map (fluidToPassThroughFace ctl F (dVftot ctl faces)) faces) = F"
proof -
  have "sum_list (map (\<lambda>f. F * mag (faceValue (phi ctl) f * deltaT ctl) / t) fs)
        = F * sum_list (map (\<lambda>f. mag (faceValue (phi ctl) f * deltaT ctl)) fs) / t" for t fs
    by (induction fs) (simp_all add: algebra_simps add_divide_distrib)
  from this [of "dVftot ctl faces" faces] assms show ?thesis
    unfolding fluidToPassThroughFace_def by (simp add: dVftot_def)
qed

section \<open>The loop of a cell ends\<close>

lemma maxExtra_after:
  assumes ok: "cellOK mesh ctl celli" and st: "cellLoopState mesh ctl alpha1 celli b"
    and pos: "0 \<le> fluidToPassOn b" and f: "f \<in> set (cells mesh ! celli)"
  shows "maxExtraFaceFluidTrans ctl (dVfW (redistribute mesh ctl alpha1 celli b)) f =
          (if f \<in> set (facesToPassFluidThrough mesh ctl (dVfW b) celli)
           then maxExtraFaceFluidTrans ctl (dVfW b) f
                  - passedThroughFace ctl (dVfW b)
                      (dVftot ctl (facesToPassFluidThrough mesh ctl (dVfW b) celli)) (fluidToPassOn b) f
           else maxExtraFaceFluidTrans ctl (dVfW b) f)"
proof -
  have len: "f < length (dVfW b)" using st f by (simp add: cellLoopState_def)
  have cap: "mag (dVfW b ! f) \<le> mag (phi ctl ! f * deltaT ctl)"
    using st len by (simp add: cellLoopState_def capacityInvariant_def)
  have dt: "0 \<le> deltaT ctl" using ok by (simp add: cellOK_def)
  have dist: "distinct (cells mesh ! celli)" using ok by (simp add: cellOK_def)
  show ?thesis
    using face_capacity_step(2) [OF pos dt cap, of "facesToPassFluidThrough mesh ctl (dVfW b) celli"] len
    by (simp add: maxExtraFaceFluidTrans_def [of ctl "dVfW (redistribute mesh ctl alpha1 celli b)"]
        redistribute_dVfW [OF dist] faceValue_def)
      (simp add: maxExtraFaceFluidTrans_def faceValue_def)
qed

lemma eligible_after:
  assumes ok: "cellOK mesh ctl celli" and st: "cellLoopState mesh ctl alpha1 celli b"
    and pos: "0 \<le> fluidToPassOn b"
  shows "facesToPassFluidThrough mesh ctl (dVfW (redistribute mesh ctl alpha1 celli b)) celli =
           filter (\<lambda>f. (maxExtraFaceFluidTrans ctl (dVfW b) f
                          - passedThroughFace ctl (dVfW b)
                              (dVftot ctl (facesToPassFluidThrough mesh ctl (dVfW b) celli))
                              (fluidToPassOn b) f) / (cellVolumes mesh ! celli) > aTolBound)
                  (facesToPassFluidThrough mesh ctl (dVfW b) celli)"
proof -
  let ?E = "facesToPassFluidThrough mesh ctl (dVfW b) celli"
  let ?p = "passedThroughFace ctl (dVfW b) (dVftot ctl ?E) (fluidToPassOn b)"
  let ?V = "cellVolumes mesh ! celli"
  have V: "0 < ?V" using ok by (simp add: cellOK_def)
  have p: "0 \<le> ?p f" for f using pos by (rule passed_nonneg)
  have "(maxExtraFaceFluidTrans ctl (dVfW (redistribute mesh ctl alpha1 celli b)) f / ?V > aTolBound)
        = (maxExtraFaceFluidTrans ctl (dVfW b) f / ?V > aTolBound
           \<and> (maxExtraFaceFluidTrans ctl (dVfW b) f - ?p f) / ?V > aTolBound)"
    if f: "f \<in> set (setDownwindFaces mesh (phi ctl) celli)" for f
  proof -
    have fc: "f \<in> set (cells mesh ! celli)" using f by (simp add: setDownwindFaces_def)
    show ?thesis
    proof (cases "f \<in> set ?E")
      case True
      have "(maxExtraFaceFluidTrans ctl (dVfW b) f - ?p f) / ?V \<le> maxExtraFaceFluidTrans ctl (dVfW b) f / ?V"
        using p [of f] V by (simp add: divide_right_mono)
      then show ?thesis
        using True by (auto simp add: maxExtra_after [OF ok st pos fc])
    next
      case False
      then have "\<not> maxExtraFaceFluidTrans ctl (dVfW b) f / ?V > aTolBound"
        using f by (simp add: facesToPassFluidThrough_def)
      then show ?thesis
        using False by (simp add: maxExtra_after [OF ok st pos fc])
    qed
  qed
  then have "filter (\<lambda>f. maxExtraFaceFluidTrans ctl (dVfW (redistribute mesh ctl alpha1 celli b)) f / ?V
                        > aTolBound) (setDownwindFaces mesh (phi ctl) celli)
        = filter (\<lambda>f. maxExtraFaceFluidTrans ctl (dVfW b) f / ?V > aTolBound
           \<and> (maxExtraFaceFluidTrans ctl (dVfW b) f - ?p f) / ?V > aTolBound)
            (setDownwindFaces mesh (phi ctl) celli)"
    by (intro filter_cong refl) blast
  also have "\<dots> = filter (\<lambda>f. (maxExtraFaceFluidTrans ctl (dVfW b) f - ?p f) / ?V > aTolBound)
      (filter (\<lambda>f. maxExtraFaceFluidTrans ctl (dVfW b) f / ?V > aTolBound)
            (setDownwindFaces mesh (phi ctl) celli))"
    by (simp only: filter_filter)
  finally show ?thesis
    by (simp only: facesToPassFluidThrough_def)
qed

lemma clamped_not_eligible:
  assumes "fluidToPassThroughFace ctl F tot f > maxExtraFaceFluidTrans ctl dVfs f"
  shows "\<not> (maxExtraFaceFluidTrans ctl dVfs f - passedThroughFace ctl dVfs tot F f) / V > aTolBound"
  using assms aTolBound_pos by (simp add: passedThroughFace_def min_def)

lemma overshoot_spent:
  fixes V nf nf' F a :: real
  assumes "0 < V" "nf' = nf + F" "F = (a - nf / V - 1) * V"
  shows "a - nf' / V - 1 = 0"
proof -
  have "F = a * V - nf - V" using assms(1,3) by (simp add: algebra_simps)
  then have "nf' = (a - 1) * V" using assms(2) by (simp add: algebra_simps)
  then show ?thesis using assms(1) by simp
qed

lemma redistribute_cellLoopState:
  assumes ok: "cellOK mesh ctl celli" and st: "cellLoopState mesh ctl alpha1 celli b"
    and over: "alphaOvershoot b > aTolBound"
  shows "cellLoopState mesh ctl alpha1 celli (redistribute mesh ctl alpha1 celli b)"
proof -
  let ?E = "facesToPassFluidThrough mesh ctl (dVfW b) celli"
  have pos: "0 \<le> fluidToPassOn b"
    using ok st over aTolBound_pos by (simp add: cellOK_def cellLoopState_def)
  have cap: "capacityInvariant ctl (dVfW (redistribute mesh ctl alpha1 celli b))"
    using ok st pos by (intro redistribute_capacity) (simp_all add: cellOK_def cellLoopState_def)
  have "facesToPassFluidThrough mesh ctl (dVfW (redistribute mesh ctl alpha1 celli b)) celli = []"
    if "nFacesToPassFluidThrough (redistribute mesh ctl alpha1 celli b) = 0"
  proof -
    from that have "\<forall>f \<in> set ?E. fluidToPassThroughFace ctl (fluidToPassOn b) (dVftot ctl ?E) f
          > maxExtraFaceFluidTrans ctl (dVfW b) f"
      by (simp add: redistribute_fields filter_empty_conv not_le)
    then show ?thesis
      using clamped_not_eligible by (simp add: eligible_after [OF ok st pos] filter_empty_conv)
  qed
  with cap st show ?thesis
    by (simp add: cellLoopState_def redistribute_fields)
qed

lemma redistribute_progress:
  assumes ok: "cellOK mesh ctl celli" and st: "cellLoopState mesh ctl alpha1 celli b"
    and over: "alphaOvershoot b > aTolBound"
  shows "\<not> (alphaOvershoot (redistribute mesh ctl alpha1 celli b) > aTolBound
            \<and> nFacesToPassFluidThrough (redistribute mesh ctl alpha1 celli b) > 0)
         \<or> length (facesToPassFluidThrough mesh ctl (dVfW (redistribute mesh ctl alpha1 celli b)) celli)
             < length (facesToPassFluidThrough mesh ctl (dVfW b) celli)"
proof -
  let ?E = "facesToPassFluidThrough mesh ctl (dVfW b) celli"
  let ?b1 = "redistribute mesh ctl alpha1 celli b"
  let ?V = "cellVolumes mesh ! celli"
  let ?share = "fluidToPassThroughFace ctl (fluidToPassOn b) (dVftot ctl ?E)"
  have pos: "0 \<le> fluidToPassOn b"
    using ok st over aTolBound_pos by (simp add: cellOK_def cellLoopState_def)
  have V: "0 < ?V" and dt: "0 < deltaT ctl" and dist: "distinct (cells mesh ! celli)"
    using ok by (simp_all add: cellOK_def)
  show ?thesis
  proof (cases "\<exists>f \<in> set ?E. ?share f > maxExtraFaceFluidTrans ctl (dVfW b) f")
    case True
    then obtain f where f: "f \<in> set ?E" "?share f > maxExtraFaceFluidTrans ctl (dVfW b) f" by blast
    have "length (facesToPassFluidThrough mesh ctl (dVfW ?b1) celli) < length ?E"
      unfolding eligible_after [OF ok st pos]
      using f(1) clamped_not_eligible [OF f(2)] by (rule length_filter_less)
    then show ?thesis by simp
  next
    case False
    then have unclamped: "\<forall>f \<in> set ?E. ?share f \<le> maxExtraFaceFluidTrans ctl (dVfW b) f"
      by (simp add: not_less)
    show ?thesis
    proof (cases "?E = []")
      case True
      then show ?thesis by (simp add: redistribute_fields)
    next
      case False
      have "\<forall>f \<in> set ?E. phi ctl ! f \<noteq> 0"
        using facesToPass_downwind [of _ mesh ctl "dVfW b" celli] downwind_sign [of mesh ctl celli]
        by blast
      from dVftot_pos [OF dt False this] have tot: "dVftot ctl ?E \<noteq> 0" by simp
      have "map (passedThroughFace ctl (dVfW b) (dVftot ctl ?E) (fluidToPassOn b)) ?E = map ?share ?E"
        using unclamped by (simp add: passedThroughFace_def min_def)
      then have total: "sum_list (map (passedThroughFace ctl (dVfW b) (dVftot ctl ?E) (fluidToPassOn b)) ?E)
          = fluidToPassOn b"
        by (simp only: sum_shares [OF tot])
      have rng: "\<forall>f \<in> set (cells mesh ! celli). f < length (dVfW b)"
        using st by (simp add: cellLoopState_def)
      have "netFlux mesh (dVfW ?b1) celli = netFlux mesh (dVfW b) celli + fluidToPassOn b"
        by (simp only: redistribute_netFlux [OF dist rng] total)
      moreover have "fluidToPassOn b
          = (alpha1 ! celli - netFlux mesh (dVfW b) celli / ?V - 1) * ?V"
        using st by (simp add: cellLoopState_def)
      ultimately have "alpha1 ! celli - netFlux mesh (dVfW ?b1) celli / ?V - 1 = 0"
        using V by (intro overshoot_spent)
      then have "alphaOvershoot ?b1 = 0"
        by (simp only: redistribute_fields)
      then show ?thesis using aTolBound_pos by simp
    qed
  qed
qed

lemma whileOvershoot_terminates:
  assumes ok: "cellOK mesh ctl celli" and st: "cellLoopState mesh ctl alpha1 celli b"
  shows "\<exists>b'. whileOvershoot mesh ctl alpha1 celli b = Some b'"
  using st
proof (induction "length (facesToPassFluidThrough mesh ctl (dVfW b) celli)" arbitrary: b
    rule: less_induct)
  case less
  let ?b1 = "redistribute mesh ctl alpha1 celli b"
  show ?case
  proof (cases "alphaOvershoot b > aTolBound \<and> nFacesToPassFluidThrough b > 0")
    case False
    then show ?thesis by (subst whileOvershoot.simps) auto
  next
    case True
    then have over: "alphaOvershoot b > aTolBound" by simp
    have st1: "cellLoopState mesh ctl alpha1 celli ?b1"
      using ok less.prems over by (rule redistribute_cellLoopState)
    have "\<exists>b'. whileOvershoot mesh ctl alpha1 celli ?b1 = Some b'"
    proof (cases "alphaOvershoot ?b1 > aTolBound \<and> nFacesToPassFluidThrough ?b1 > 0")
      case False
      then show ?thesis by (subst whileOvershoot.simps) auto
    next
      case True
      with redistribute_progress [OF ok less.prems over]
      have "length (facesToPassFluidThrough mesh ctl (dVfW ?b1) celli)
             < length (facesToPassFluidThrough mesh ctl (dVfW b) celli)" by blast
      from less.hyps [OF this st1] show ?thesis .
    qed
    with True show ?thesis by (subst whileOvershoot.simps) auto
  qed
qed

section \<open>The bounding loop returns\<close>

lemma forAllM_total:
  assumes "I s"
    and "\<And>x s. x \<in> set xs \<Longrightarrow> I s \<Longrightarrow> \<exists>s'. body x s = Some s' \<and> I s'"
  shows "\<exists>s'. forAllM body xs s = Some s' \<and> I s'"
  using assms
proof (induction xs arbitrary: s)
  case Nil
  then show ?case by simp
next
  case (Cons x xs)
  from Cons.prems obtain s1 where s1: "body x s = Some s1" "I s1" by fastforce
  from Cons.IH [OF s1(2)] Cons.prems(2) obtain s' where "forAllM body xs s1 = Some s'" "I s'"
    by fastforce
  with s1 show ?case by simp
qed

lemma boundCell_total:
  assumes ok: "cellOK mesh ctl celli"
    and cap: "capacityInvariant ctl (dVfW b)"
    and rng: "\<forall>f \<in> set (cells mesh ! celli). f < length (dVfW b)"
  shows "\<exists>b'. boundCell mesh ctl checkB alpha1 celli b = Some b'"
proof (cases "checkB ! celli")
  case False
  then show ?thesis by (simp add: boundCell_def)
next
  case True
  let ?V = "cellVolumes mesh ! celli"
  let ?over = "alpha1 ! celli - netFlux mesh (dVfW b) celli / ?V - 1"
  have "cellLoopState mesh ctl alpha1 celli
          (b\<lparr>alphaOvershoot := ?over, fluidToPassOn := ?over * ?V,
             nFacesToPassFluidThrough := 1, firstLoop := True\<rparr>)"
    using cap rng by (simp add: cellLoopState_def)
  from whileOvershoot_terminates [OF ok this] True show ?thesis
    by (simp add: boundCell_def Let_def)
qed

lemma boundFromAbove_total:
  assumes ok: "\<And>celli. celli < length alpha1 \<Longrightarrow>
                 cellOK mesh ctl celli \<and> (\<forall>f \<in> set (cells mesh ! celli). f < length dVfs)"
    and cap: "capacityInvariant ctl dVfs"
  shows "\<exists>b. boundFromAbove mesh ctl checkB alpha1 dVfs bounded pend = Some b"
proof -
  let ?I = "\<lambda>x::bounding. capacityInvariant ctl (dVfW x) \<and> length (dVfW x) = length dVfs"
  have "\<exists>s'. boundCell mesh ctl checkB alpha1 celli s = Some s' \<and> ?I s'"
    if "celli \<in> set [0..<length alpha1]" "?I s" for celli s
  proof -
    from that ok [of celli] have c: "cellOK mesh ctl celli"
      and r: "\<forall>f \<in> set (cells mesh ! celli). f < length (dVfW s)" by simp_all
    from boundCell_total [OF c _ r, of checkB alpha1] that(2)
    obtain s' where s': "boundCell mesh ctl checkB alpha1 celli s = Some s'" by blast
    have "?I s'"
      using boundCell_invariant [where Inv = "capacityInvariant ctl", OF s'] that(2) c
        redistribute_capacity [of mesh celli _ ctl alpha1]
      by (simp add: cellOK_def less_imp_le)
    with s' show ?thesis by blast
  qed
  note step = this
  let ?s0 = "\<lparr>dVfW = dVfs, correctedFaces = [], isBounded = bounded, pendingFaces = pend,
        alphaOvershoot = 0, fluidToPassOn = 0, nFacesToPassFluidThrough = 0, firstLoop = False\<rparr>"
  have "\<exists>s'. forAllM (boundCell mesh ctl checkB alpha1) [0..<length alpha1] ?s0 = Some s' \<and> ?I s'"
  proof (rule forAllM_total [where I = ?I and body = "boundCell mesh ctl checkB alpha1"
        and xs = "[0..<length alpha1]"])
    show "?I ?s0" using cap by simp
  next
    fix x s
    assume "x \<in> set [0..<length alpha1]" "?I s"
    then show "\<exists>s'. boundCell mesh ctl checkB alpha1 x s = Some s' \<and> ?I s'" by (rule step)
  qed
  then show ?thesis unfolding boundFromAbove_def by blast
qed

lemma consistent_cellOK:
  "consistent mesh ctl st \<Longrightarrow> celli < length (alpha1In st) \<Longrightarrow>
     cellOK mesh ctl celli \<and> (\<forall>f \<in> set (cells mesh ! celli). f < length (dVf st))"
  by (simp add: consistent_def meshOK_def cellOK_def)

lemma boundAbove_total:
  assumes con: "consistent mesh ctl st" and inv: "portionInvariant ctl (dVf st)"
  shows "\<exists>st'. boundAbove mesh ctl st = Some st'"
proof -
  from boundFromAbove_total [of "alpha1In st" mesh ctl "dVf st"]
    consistent_cellOK [OF con] portionInvariant_imp_capacity [OF inv]
  obtain b where "boundFromAbove mesh ctl (checkBounding st) (alpha1In st) (dVf st)
        (cellIsBounded st) (surfaceCellFacesOnProcPatches st) = Some b" by blast
  then show ?thesis by (simp add: boundAbove_def)
qed

lemma boundBelow_total:
  assumes con: "consistent mesh ctl st" and inv: "portionInvariant ctl (dVf st)"
  shows "\<exists>st'. boundBelow mesh ctl st = Some st'"
proof -
  let ?alpha2 = "map (\<lambda>a. 1 - a) (alpha1In st)"
  have len: "length (phi ctl) = length (dVf st)" using con by (simp add: consistent_def)
  have cap: "capacityInvariant ctl (complementField ctl (dVf st))"
    using inv len by (simp add: complementField_portion portionInvariant_imp_capacity)
  have ok: "cellOK mesh ctl celli
      \<and> (\<forall>f \<in> set (cells mesh ! celli). f < length (complementField ctl (dVf st)))"
    if "celli < length ?alpha2" for celli
    using consistent_cellOK [OF con, of celli] that len by (simp add: complementField_nth)
  from boundFromAbove_total [of ?alpha2 mesh ctl "complementField ctl (dVf st)", OF ok cap]
  obtain b where "boundFromAbove mesh ctl (checkBounding st) ?alpha2
        (complementField ctl (dVf st)) (cellIsBounded st) (surfaceCellFacesOnProcPatches st) = Some b"
    by blast
  then show ?thesis by (simp add: boundBelow_def)
qed

lemma boundingStep_total:
  assumes con: "consistent mesh ctl st" and inv: "portionInvariant ctl (dVf st)"
  shows "\<exists>st'. boundingStep mesh ctl mx mn st = Some st'"
proof -
  have "\<exists>st1. (if mx > aTolLimit then boundAbove mesh ctl st else Some st) = Some st1"
    using boundAbove_total [OF con inv] by (cases "mx > aTolLimit") simp_all
  then obtain st1 where s1: "(if mx > aTolLimit then boundAbove mesh ctl st else Some st) = Some st1"
    by blast
  have i1: "portionInvariant ctl (dVf st1) \<and> consistent mesh ctl st1"
  proof (cases "mx > aTolLimit")
    case True
    with s1 boundAbove_portion [of mesh ctl st st1] con inv show ?thesis by simp
  next
    case False
    with s1 con inv show ?thesis by simp
  qed
  have "\<exists>st'. (if mn < - aTolLimit then boundBelow mesh ctl st1 else Some st1) = Some st'"
    using boundBelow_total [of mesh ctl st1] i1 by (cases "mn < - aTolLimit") simp_all
  with s1 show ?thesis by (simp add: boundingStep_def)
qed

lemma limitFluxes_total:
  assumes con: "consistent mesh ctl st" and inv: "portionInvariant ctl (dVf st)"
  shows "\<exists>st'. limitFluxes mesh ctl st = Some st'"
proof -
  let ?I = "\<lambda>s::isoAdvection. portionInvariant ctl (dVf s) \<and> consistent mesh ctl s"
  let ?mx = "gMax (parRun ctl) (alphaNewElsewhere ctl) (alphaMinusSurfaceIntegrate mesh (alpha1In st) (dVf st)) - 1"
  let ?mn = "gMin (parRun ctl) (alphaNewElsewhere ctl) (alphaMinusSurfaceIntegrate mesh (alpha1In st) (dVf st))"
  let ?s0 = "st\<lparr>cellIsBounded := assignList (cellIsBoundedSize st) False (cellIsBounded st)\<rparr>"
  have "\<exists>s'. forAllM (\<lambda>n. boundingStep mesh ctl ?mx ?mn) [0..<nat (nAlphaBounds ctl)] ?s0 = Some s'
          \<and> ?I s'"
  proof (rule forAllM_total [where I = ?I and body = "\<lambda>n. boundingStep mesh ctl ?mx ?mn"
        and xs = "[0..<nat (nAlphaBounds ctl)]"])
    show "?I ?s0" using con inv by (simp add: consistent_def)
  next
    fix x s
    assume "?I s"
    then show "\<exists>s'. boundingStep mesh ctl ?mx ?mn s = Some s' \<and> ?I s'"
      using boundingStep_total [of mesh ctl s ?mx ?mn] boundingStep_portion [of mesh ctl ?mx ?mn s]
      by blast
  qed
  then show ?thesis unfolding limitFluxes_def Let_def by blast
qed


section \<open>Faces the bounding does not correct\<close>

lemma fold_pass_untouched:
  "f \<notin> set fs \<Longrightarrow>
     dVfW (fold (passFluidThroughFace mesh ctl dVf0 tot F first) fs b) ! f = dVfW b ! f"
  by (induction fs arbitrary: b) (simp_all add: pass_fields)

lemma redistribute_untouched:
  "f \<notin> set (facesToPassFluidThrough mesh ctl (dVfW b) celli) \<Longrightarrow>
     dVfW (redistribute mesh ctl alpha1 celli b) ! f = dVfW b ! f"
  by (simp add: redistribute_def Let_def fold_pass_untouched)

lemma facesToPass_same_entry:
  "d' ! f = d ! f \<Longrightarrow>
     (f \<in> set (facesToPassFluidThrough mesh ctl d' celli))
       = (f \<in> set (facesToPassFluidThrough mesh ctl d celli))"
  by (simp add: facesToPassFluidThrough_def maxExtraFaceFluidTrans_def faceValue_def)

lemma redistribute_eligible_subset:
  "set (facesToPassFluidThrough mesh ctl (dVfW (redistribute mesh ctl alpha1 celli b)) celli)
     \<subseteq> set (facesToPassFluidThrough mesh ctl (dVfW b) celli)"
  using facesToPass_same_entry [OF redistribute_untouched] by blast

lemma boundCell_untouched:
  assumes run: "boundCell mesh ctl checkB alpha1 celli b = Some b'"
    and inv: "\<forall>f. f \<notin> set (correctedFaces b) \<longrightarrow> dVfW b ! f = dVfs ! f"
  shows "(\<forall>f. f \<notin> set (correctedFaces b') \<longrightarrow> dVfW b' ! f = dVfs ! f)
         \<and> length (dVfW b') = length (dVfW b)"
proof (cases "checkB ! celli")
  case False
  with run inv show ?thesis by (simp add: boundCell_def)
next
  case True
  let ?I = "\<lambda>x::bounding. (\<forall>f. f \<notin> set (correctedFaces x) \<longrightarrow> dVfW x ! f = dVfs ! f)
              \<and> length (dVfW x) = length (dVfW b)
              \<and> (\<not> firstLoop x \<longrightarrow> set (facesToPassFluidThrough mesh ctl (dVfW x) celli)
                                      \<subseteq> set (correctedFaces x))"
  from True run obtain b0 where b0: "whileOvershoot mesh ctl alpha1 celli b0 = Some b'"
    and init: "?I b0"
    using inv by (auto simp add: boundCell_def Let_def)
  have "?I (redistribute mesh ctl alpha1 celli x)" if x: "?I x" for x
  proof -
    let ?E = "facesToPassFluidThrough mesh ctl (dVfW x) celli"
    have sub: "set ?E \<subseteq> set (correctedFaces (redistribute mesh ctl alpha1 celli x))"
      using x by (cases "firstLoop x") (auto simp add: redistribute_fields)
    have keep: "set (correctedFaces x) \<subseteq> set (correctedFaces (redistribute mesh ctl alpha1 celli x))"
      by (simp add: redistribute_fields)
    have "dVfW (redistribute mesh ctl alpha1 celli x) ! f = dVfs ! f"
      if "f \<notin> set (correctedFaces (redistribute mesh ctl alpha1 celli x))" for f
    proof -
      from that sub have "f \<notin> set ?E" by blast
      then have "dVfW (redistribute mesh ctl alpha1 celli x) ! f = dVfW x ! f"
        by (rule redistribute_untouched)
      moreover from that keep have "f \<notin> set (correctedFaces x)" by blast
      with x have "dVfW x ! f = dVfs ! f" by blast
      ultimately show ?thesis by simp
    qed
    then show ?thesis
      using sub redistribute_eligible_subset [of mesh ctl alpha1 celli x]
      by (auto simp add: redistribute_fields x)
  qed
  from whileOvershoot_rule [where I = ?I, OF b0 init this] show ?thesis by simp
qed

lemma boundFromAbove_untouched:
  assumes run: "boundFromAbove mesh ctl checkB alpha1 dVfs bounded pend = Some b"
  shows "(\<forall>f. f \<notin> set (correctedFaces b) \<longrightarrow> dVfW b ! f = dVfs ! f)
         \<and> length (dVfW b) = length dVfs"
proof -
  let ?I = "\<lambda>x::bounding. (\<forall>f. f \<notin> set (correctedFaces x) \<longrightarrow> dVfW x ! f = dVfs ! f)
              \<and> length (dVfW x) = length dVfs"
  show ?thesis
  proof (rule forAllM_rule [where I = ?I, OF run [unfolded boundFromAbove_def]])
    show "?I \<lparr>dVfW = dVfs, correctedFaces = [], isBounded = bounded, pendingFaces = pend,
        alphaOvershoot = 0, fluidToPassOn = 0, nFacesToPassFluidThrough = 0, firstLoop = False\<rparr>"
      by simp
  next
    fix celli s s'
    assume "?I s" "boundCell mesh ctl checkB alpha1 celli s = Some s'"
    then show "?I s'"
      using boundCell_untouched [of mesh ctl checkB alpha1 celli s s' dVfs] by simp
  qed
qed


section \<open>The capacity invariant\<close>

lemma redistribute_added:
  assumes ok: "cellOK mesh ctl celli" and inv: "portionInvariant ctl (dVfW b)"
    and pos: "0 \<le> fluidToPassOn b" and f: "f < length (dVfW b)"
  shows "mag (dVfW (redistribute mesh ctl alpha1 celli b) ! f - dVfW b ! f)
           \<le> mag (phi ctl ! f * deltaT ctl) - mag (dVfW b ! f)"
proof -
  let ?E = "facesToPassFluidThrough mesh ctl (dVfW b) celli"
  let ?p = "passedThroughFace ctl (dVfW b) (dVftot ctl ?E) (fluidToPassOn b) f"
  have dist: "distinct (cells mesh ! celli)" using ok by (simp add: cellOK_def)
  have por: "portion (phi ctl ! f * deltaT ctl) (dVfW b ! f)"
    using inv f by (simp add: portionInvariant_def)
  have spare: "maxExtraFaceFluidTrans ctl (dVfW b) f = mag (phi ctl ! f * deltaT ctl) - mag (dVfW b ! f)"
    using portion_spare [OF por] by (simp add: maxExtraFaceFluidTrans_def mag_def faceValue_def)
  have p0: "0 \<le> ?p" using pos by (rule passed_nonneg)
  have "mag (sign (phi ctl ! f) * ?p) = ?p"
    using p0 by (simp add: mag_def sign_def abs_mult)
  moreover have "?p \<le> mag (phi ctl ! f * deltaT ctl) - mag (dVfW b ! f)"
    using passed_le_maxExtra [of ctl "dVfW b" "dVftot ctl ?E" "fluidToPassOn b" f] spare by simp
  moreover have "0 \<le> mag (phi ctl ! f * deltaT ctl) - mag (dVfW b ! f)"
    using portion_imp_capacity [OF por] by (simp add: mag_def)
  ultimately show ?thesis
    using f by (simp add: redistribute_dVfW [OF dist]) (simp add: mag_def)
qed

text \<open>
  C1, as the code has it. The invariant that every bounding pass keeps is that the
  transport of each face is a portion of \<open>phi*dt\<close>: it lies between 0 and
  \<open>phi*dt\<close>, which bounds its magnitude by that of \<open>phi*dt\<close>. On consistent
  inputs \<open>limitFluxes\<close> returns, for any number of passes, and the invariant holds of
  the field it leaves. It holds after every turn of the loop of a cell, and a turn
  changes a face by no more than the spare capacity \<open>|phi*dt| - |dVf|\<close>. The bound
  on the magnitude alone is kept by \<open>boundFromAbove\<close>.
\<close>

theorem portion_invariant_preserved:
  "(consistent mesh ctl st \<and> portionInvariant ctl (dVf st) \<longrightarrow>
      (\<exists>st'. limitFluxes mesh ctl st = Some st'
         \<and> portionInvariant ctl (dVf st') \<and> capacityInvariant ctl (dVf st')))
   \<and> (cellOK mesh ctl celli \<and> portionInvariant ctl (dVfW b) \<and> 0 \<le> fluidToPassOn b \<longrightarrow>
      portionInvariant ctl (dVfW (redistribute mesh ctl alpha1 celli b))
      \<and> (\<forall>f < length (dVfW b).
            mag (dVfW (redistribute mesh ctl alpha1 celli b) ! f - dVfW b ! f)
              \<le> mag (phi ctl ! f * deltaT ctl) - mag (dVfW b ! f)))
   \<and> ((\<forall>c < length alpha1. cellOK mesh ctl c \<and> (\<forall>f \<in> set (cells mesh ! c). f < length dVfs))
        \<and> capacityInvariant ctl dVfs \<longrightarrow>
      (\<exists>b'. boundFromAbove mesh ctl checkB alpha1 dVfs bounded pend = Some b'
         \<and> capacityInvariant ctl (dVfW b')))"
proof (intro conjI impI)
  assume h: "consistent mesh ctl st \<and> portionInvariant ctl (dVf st)"
  then obtain st' where st': "limitFluxes mesh ctl st = Some st'"
    using limitFluxes_total by blast
  with h limitFluxes_portion [OF st'] portionInvariant_imp_capacity
  show "\<exists>st'. limitFluxes mesh ctl st = Some st'
         \<and> portionInvariant ctl (dVf st') \<and> capacityInvariant ctl (dVf st')"
    by blast
next
  assume h: "cellOK mesh ctl celli \<and> portionInvariant ctl (dVfW b) \<and> 0 \<le> fluidToPassOn b"
  then show "portionInvariant ctl (dVfW (redistribute mesh ctl alpha1 celli b))"
    by (intro redistribute_portion) (simp_all add: cellOK_def)
  from h show "\<forall>f < length (dVfW b).
            mag (dVfW (redistribute mesh ctl alpha1 celli b) ! f - dVfW b ! f)
              \<le> mag (phi ctl ! f * deltaT ctl) - mag (dVfW b ! f)"
    using redistribute_added by blast
next
  assume h: "(\<forall>c < length alpha1. cellOK mesh ctl c \<and> (\<forall>f \<in> set (cells mesh ! c). f < length dVfs))
        \<and> capacityInvariant ctl dVfs"
  then obtain b' where b': "boundFromAbove mesh ctl checkB alpha1 dVfs bounded pend = Some b'"
    using boundFromAbove_total [of alpha1 mesh ctl dVfs checkB bounded pend] by blast
  have "capacityInvariant ctl (dVfW b')"
    using boundFromAbove_invariant [where Inv = "capacityInvariant ctl", OF b'] h
      redistribute_capacity [of mesh _ _ ctl alpha1]
    by (simp add: cellOK_def less_imp_le)
  with b' show "\<exists>b'. boundFromAbove mesh ctl checkB alpha1 dVfs bounded pend = Some b'
         \<and> capacityInvariant ctl (dVfW b')" by blast
qed

theorem portion_invariant_preserved_witness:
  "consistent exMesh2 exControls2 exState2 \<and> portionInvariant exControls2 (dVf exState2)
   \<and> (\<exists>st'. limitFluxes exMesh2 exControls2 exState2 = Some st'
         \<and> dVf st' = [1, 1 / 2] \<and> capacityInvariant exControls2 (dVf st'))"
proof -
  have c: "consistent exMesh2 exControls2 exState2"
    by (simp add: consistent_def meshOK_def example_defs All_less_Suc numeral_2_eq_2)
  have p: "portionInvariant exControls2 (dVf exState2)"
    by (simp add: portionInvariant_def portion_def example_defs All_less_Suc numeral_2_eq_2)
  have r: "map_option dVf (limitFluxes exMesh2 exControls2 exState2) = Some [1, 1 / 2]"
    by (simp add: example_defs bound_defs numeral_3_eq_3)
  from portion_invariant_preserved [of exMesh2 exControls2 exState2] c p r
  show ?thesis by auto
qed

text \<open>
  The bound on the magnitude alone is not kept by the pass for the lower bound: on the
  first mesh the transport -1 of a face with \<open>phi*dt = 1\<close> is within capacity on
  entry and is -2 after \<open>limitFluxes\<close>.
\<close>

theorem capacity_invariant_counterexample:
  "consistent exMesh1 exControls1 exState1 \<and> capacityInvariant exControls1 (dVf exState1)
   \<and> map_option dVf (limitFluxes exMesh1 exControls1 exState1) = Some [- 2]
   \<and> \<not> capacityInvariant exControls1 [- 2]"
  by (simp add: consistent_def meshOK_def capacityInvariant_def example_defs bound_defs numeral_3_eq_3)


section \<open>The passes of the bounding loop\<close>







lemma boundBelow_result:
  assumes "boundFromAbove mesh ctl (checkBounding st) (map (\<lambda>a. 1 - a) (alpha1In st))
             (complementField ctl (dVf st)) (cellIsBounded st)
             (surfaceCellFacesOnProcPatches st) = Some b"
  shows "\<exists>D. length D = length (dVf st)
           \<and> (\<forall>f < length (dVf st).
                 D ! f = (if f \<in> set (correctedFaces b)
                          then phi ctl ! f * deltaT ctl - dVfW b ! f else dVf st ! f))
           \<and> boundBelow mesh ctl st =
               Some (syncProcPatches mesh ctl
                 (st\<lparr>dVf := D, cellIsBounded := isBounded b,
                     surfaceCellFacesOnProcPatches := pendingFaces b,
                     log := log st @ [BoundBelow, Merged]\<rparr>))"
proof (intro exI conjI)
  let ?D = "fold (\<lambda>facei d. setFaceValue d facei
                     (faceValue (phi ctl) facei * deltaT ctl - faceValue (dVfW b) facei))
              (correctedFaces b) (dVf st)"
  show "length ?D = length (dVf st)" by (simp add: merge_nth)
  show "\<forall>f < length (dVf st).
          ?D ! f = (if f \<in> set (correctedFaces b)
                    then phi ctl ! f * deltaT ctl - dVfW b ! f else dVf st ! f)"
    by (simp add: merge_nth faceValue_def)
  show "boundBelow mesh ctl st =
               Some (syncProcPatches mesh ctl
                 (st\<lparr>dVf := ?D, cellIsBounded := isBounded b,
                     surfaceCellFacesOnProcPatches := pendingFaces b,
                     log := log st @ [BoundBelow, Merged]\<rparr>))"
    using assms by (simp add: boundBelow_def Let_def)
qed

lemma boundFromAbove_below_total:
  assumes con: "consistent mesh ctl st" and inv: "portionInvariant ctl (dVf st)"
  shows "\<exists>b. boundFromAbove mesh ctl (checkBounding st) (map (\<lambda>a. 1 - a) (alpha1In st))
             (complementField ctl (dVf st)) (cellIsBounded st)
             (surfaceCellFacesOnProcPatches st) = Some b"
proof -
  from boundBelow_total [OF con inv] obtain st' where "boundBelow mesh ctl st = Some st'" by blast
  then show ?thesis by (auto simp add: boundBelow_def Let_def split: option.splits)
qed

lemma boundFromAbove_above_total:
  assumes con: "consistent mesh ctl st" and inv: "portionInvariant ctl (dVf st)"
  shows "\<exists>b. boundFromAbove mesh ctl (checkBounding st) (alpha1In st) (dVf st)
             (cellIsBounded st) (surfaceCellFacesOnProcPatches st) = Some b"
proof -
  from boundAbove_total [OF con inv] obtain st' where "boundAbove mesh ctl st = Some st'" by blast
  then show ?thesis by (auto simp add: boundAbove_def split: option.splits)
qed



lemma boundBelow_merge:
  assumes "boundBelow mesh ctl sb = Some sb'"
  shows "(\<exists>b D. boundFromAbove mesh ctl (checkBounding sb) (map (\<lambda>a. 1 - a) (alpha1In sb))
                  (complementField ctl (dVf sb)) (cellIsBounded sb)
                  (surfaceCellFacesOnProcPatches sb) = Some b
           \<and> length D = length (dVf sb)
           \<and> (\<forall>f < length (dVf sb).
                 D ! f = (if f \<in> set (correctedFaces b)
                          then phi ctl ! f * deltaT ctl - dVfW b ! f else dVf sb ! f))
           \<and> sb' = syncProcPatches mesh ctl
                 (sb\<lparr>dVf := D, cellIsBounded := isBounded b,
                     surfaceCellFacesOnProcPatches := pendingFaces b,
                     log := log sb @ [BoundBelow, Merged]\<rparr>)
           \<and> (\<forall>f < length (dVf sb).
                 (parRun ctl \<longrightarrow> f \<notin> fst ` set (receivedPairs mesh ctl (nSync sb))) \<longrightarrow>
                 dVf sb' ! f = D ! f))"
proof -
  from assms obtain b where b: "boundFromAbove mesh ctl (checkBounding sb) (map (\<lambda>a. 1 - a) (alpha1In sb))
                  (complementField ctl (dVf sb)) (cellIsBounded sb)
                  (surfaceCellFacesOnProcPatches sb) = Some b"
    by (auto simp add: boundBelow_def Let_def split: option.splits)
  from boundBelow_result [OF b] obtain D where D: "length D = length (dVf sb)"
      "\<forall>f < length (dVf sb).
                 D ! f = (if f \<in> set (correctedFaces b)
                          then phi ctl ! f * deltaT ctl - dVfW b ! f else dVf sb ! f)"
      "boundBelow mesh ctl sb = Some (syncProcPatches mesh ctl
                 (sb\<lparr>dVf := D, cellIsBounded := isBounded b,
                     surfaceCellFacesOnProcPatches := pendingFaces b,
                     log := log sb @ [BoundBelow, Merged]\<rparr>))"
    by blast
  from D(3) assms have eq: "sb' = syncProcPatches mesh ctl
                 (sb\<lparr>dVf := D, cellIsBounded := isBounded b,
                     surfaceCellFacesOnProcPatches := pendingFaces b,
                     log := log sb @ [BoundBelow, Merged]\<rparr>)"
    by simp
  have "dVf sb' ! f = D ! f"
    if "parRun ctl \<longrightarrow> f \<notin> fst ` set (receivedPairs mesh ctl (nSync sb))" for f
    unfolding eq using that by (simp add: sync_unnamed)
  with b D(1,2) eq show ?thesis by blast
qed





section \<open>The lower bound\<close>

text \<open>
  C3, as the code has it. The repair of undershoots is \<open>boundFromAbove\<close> applied
  to \<open>1 - alpha1\<close> and to the field \<open>phi*dt - dVf\<close>. Every corrected face is
  written into the transport field as \<open>phi*dt\<close> minus its corrected value, the
  other faces keep their transport, and \<open>syncProcPatches\<close> runs on the result: a
  face that no received pair names has the merged value after the repair. If every
  face transport is a portion of \<open>phi*dt\<close> on entry, the repair returns and the
  same holds of the field it leaves, which is then within capacity.
\<close>

theorem boundBelow_complementary:
  "(boundBelow mesh ctl st = Some st' \<longrightarrow>
      (\<exists>b D. boundFromAbove mesh ctl (checkBounding st) (map (\<lambda>a. 1 - a) (alpha1In st))
                  (complementField ctl (dVf st)) (cellIsBounded st)
                  (surfaceCellFacesOnProcPatches st) = Some b
           \<and> length D = length (dVf st)
           \<and> (\<forall>f < length (dVf st).
                 D ! f = (if f \<in> set (correctedFaces b)
                          then phi ctl ! f * deltaT ctl - dVfW b ! f else dVf st ! f))
           \<and> st' = syncProcPatches mesh ctl
                 (st\<lparr>dVf := D, cellIsBounded := isBounded b,
                     surfaceCellFacesOnProcPatches := pendingFaces b,
                     log := log st @ [BoundBelow, Merged]\<rparr>)
           \<and> (\<forall>f < length (dVf st).
                 (parRun ctl \<longrightarrow> f \<notin> fst ` set (receivedPairs mesh ctl (nSync st))) \<longrightarrow>
                 dVf st' ! f = D ! f)))
   \<and> (length (phi ctl) = length (dVf st) \<longrightarrow>
        (\<forall>f < length (dVf st).
           complementField ctl (dVf st) ! f = phi ctl ! f * deltaT ctl - dVf st ! f))
   \<and> (consistent mesh ctl st \<and> portionInvariant ctl (dVf st) \<longrightarrow>
        (\<exists>st'. boundBelow mesh ctl st = Some st'
           \<and> portionInvariant ctl (dVf st') \<and> capacityInvariant ctl (dVf st')))"
proof (intro conjI impI)
  assume "boundBelow mesh ctl st = Some st'"
  then show "(\<exists>b D. boundFromAbove mesh ctl (checkBounding st) (map (\<lambda>a. 1 - a) (alpha1In st))
                  (complementField ctl (dVf st)) (cellIsBounded st)
                  (surfaceCellFacesOnProcPatches st) = Some b
           \<and> length D = length (dVf st)
           \<and> (\<forall>f < length (dVf st).
                 D ! f = (if f \<in> set (correctedFaces b)
                          then phi ctl ! f * deltaT ctl - dVfW b ! f else dVf st ! f))
           \<and> st' = syncProcPatches mesh ctl
                 (st\<lparr>dVf := D, cellIsBounded := isBounded b,
                     surfaceCellFacesOnProcPatches := pendingFaces b,
                     log := log st @ [BoundBelow, Merged]\<rparr>)
           \<and> (\<forall>f < length (dVf st).
                 (parRun ctl \<longrightarrow> f \<notin> fst ` set (receivedPairs mesh ctl (nSync st))) \<longrightarrow>
                 dVf st' ! f = D ! f))"
    by (rule boundBelow_merge)
next
  assume "length (phi ctl) = length (dVf st)"
  then show "\<forall>f < length (dVf st).
           complementField ctl (dVf st) ! f = phi ctl ! f * deltaT ctl - dVf st ! f"
    by (simp add: complementField_nth)
next
  assume h: "consistent mesh ctl st \<and> portionInvariant ctl (dVf st)"
  then obtain s' where s': "boundBelow mesh ctl st = Some s'"
    using boundBelow_total by blast
  with h boundBelow_portion [OF s'] portionInvariant_imp_capacity
  show "\<exists>st'. boundBelow mesh ctl st = Some st'
           \<and> portionInvariant ctl (dVf st') \<and> capacityInvariant ctl (dVf st')"
    by blast
qed

theorem boundBelow_complementary_witness:
  "consistent exMesh2 exControls2 exState3 \<and> portionInvariant exControls2 (dVf exState3)
   \<and> boundBelow exMesh2 exControls2 exState3 = Some (exState3\<lparr>dVf := [0, 1 / 2], cellIsBounded := [False, True],
       log := [BoundBelow, Merged, Synced]\<rparr>)
   \<and> (\<exists>b D. boundFromAbove exMesh2 exControls2 (checkBounding exState3) (map (\<lambda>a. 1 - a) (alpha1In exState3))
                  (complementField exControls2 (dVf exState3)) (cellIsBounded exState3)
                  (surfaceCellFacesOnProcPatches exState3) = Some b
           \<and> length D = length (dVf exState3)
           \<and> (\<forall>f < length (dVf exState3).
                 D ! f = (if f \<in> set (correctedFaces b)
                          then phi exControls2 ! f * deltaT exControls2 - dVfW b ! f else dVf exState3 ! f))
           \<and> (exState3\<lparr>dVf := [0, 1 / 2], cellIsBounded := [False, True],
       log := [BoundBelow, Merged, Synced]\<rparr>) = syncProcPatches exMesh2 exControls2
                 (exState3\<lparr>dVf := D, cellIsBounded := isBounded b,
                     surfaceCellFacesOnProcPatches := pendingFaces b,
                     log := log exState3 @ [BoundBelow, Merged]\<rparr>)
           \<and> (\<forall>f < length (dVf exState3).
                 (parRun exControls2 \<longrightarrow> f \<notin> fst ` set (receivedPairs exMesh2 exControls2 (nSync exState3))) \<longrightarrow>
                 dVf (exState3\<lparr>dVf := [0, 1 / 2], cellIsBounded := [False, True],
       log := [BoundBelow, Merged, Synced]\<rparr>) ! f = D ! f))
   \<and> (\<exists>st'. boundBelow exMesh2 exControls2 exState3 = Some st'
           \<and> portionInvariant exControls2 (dVf st') \<and> capacityInvariant exControls2 (dVf st'))
   \<and> length (phi exControls2) = length (dVf exState3)
   \<and> complementField exControls2 (dVf exState3) ! 1
         = phi exControls2 ! 1 * deltaT exControls2 - dVf exState3 ! 1
   \<and> consistent exMesh3 exControls3 exState7 \<and> portionInvariant exControls3 (dVf exState7)
   \<and> parRun exControls3
   \<and> receivedPairs exMesh3 exControls3 (nSync exState7) = [(1, 3 / 10)]
   \<and> map_option (\<lambda>b. (correctedFaces b, dVfW b))
        (boundFromAbove exMesh3 exControls3 (checkBounding exState7)
           (map (\<lambda>a. 1 - a) (alpha1In exState7)) (complementField exControls3 (dVf exState7))
           (cellIsBounded exState7) (surfaceCellFacesOnProcPatches exState7)) = Some ([0], [1, - 1])
   \<and> boundBelow exMesh3 exControls3 exState7 = Some (exState7\<lparr>dVf := [0, - 3 / 10], cellIsBounded := [True],
       surfaceCellFacesOnProcPatches := [[]], nSync := 1, sent := [(0, [0], [0])],
       log := [BoundBelow, Merged, Synced]\<rparr>)
   \<and> (\<exists>b D. boundFromAbove exMesh3 exControls3 (checkBounding exState7) (map (\<lambda>a. 1 - a) (alpha1In exState7))
                  (complementField exControls3 (dVf exState7)) (cellIsBounded exState7)
                  (surfaceCellFacesOnProcPatches exState7) = Some b
           \<and> length D = length (dVf exState7)
           \<and> (\<forall>f < length (dVf exState7).
                 D ! f = (if f \<in> set (correctedFaces b)
                          then phi exControls3 ! f * deltaT exControls3 - dVfW b ! f else dVf exState7 ! f))
           \<and> (exState7\<lparr>dVf := [0, - 3 / 10], cellIsBounded := [True],
       surfaceCellFacesOnProcPatches := [[]], nSync := 1, sent := [(0, [0], [0])],
       log := [BoundBelow, Merged, Synced]\<rparr>) = syncProcPatches exMesh3 exControls3
                 (exState7\<lparr>dVf := D, cellIsBounded := isBounded b,
                     surfaceCellFacesOnProcPatches := pendingFaces b,
                     log := log exState7 @ [BoundBelow, Merged]\<rparr>)
           \<and> (\<forall>f < length (dVf exState7).
                 (parRun exControls3 \<longrightarrow> f \<notin> fst ` set (receivedPairs exMesh3 exControls3 (nSync exState7))) \<longrightarrow>
                 dVf (exState7\<lparr>dVf := [0, - 3 / 10], cellIsBounded := [True],
       surfaceCellFacesOnProcPatches := [[]], nSync := 1, sent := [(0, [0], [0])],
       log := [BoundBelow, Merged, Synced]\<rparr>) ! f = D ! f))
   \<and> (\<exists>st'. boundBelow exMesh3 exControls3 exState7 = Some st'
           \<and> portionInvariant exControls3 (dVf st') \<and> capacityInvariant exControls3 (dVf st'))"
proof -
  have c: "consistent exMesh2 exControls2 exState3"
    by (simp add: consistent_def meshOK_def example_defs All_less_Suc numeral_2_eq_2)
  have p: "portionInvariant exControls2 (dVf exState3)"
    by (simp add: portionInvariant_def portion_def example_defs All_less_Suc numeral_2_eq_2)
  have r: "boundBelow exMesh2 exControls2 exState3 = Some (exState3\<lparr>dVf := [0, 1 / 2], cellIsBounded := [False, True],
       log := [BoundBelow, Merged, Synced]\<rparr>)"
    by (simp add: example_defs bound_defs)
  have c7: "consistent exMesh3 exControls3 exState7"
    by (simp add: consistent_def meshOK_def receivedWithin_def portion_def example_defs)
  have p7: "portionInvariant exControls3 (dVf exState7)"
    by (simp add: portionInvariant_def portion_def example_defs All_less_Suc numeral_2_eq_2)
  have d7: "parRun exControls3" by (simp add: example_defs)
  have e7: "receivedPairs exMesh3 exControls3 (nSync exState7) = [(1, 3 / 10)]"
    by (simp add: receivedPairs_def example_defs)
  have b7: "map_option (\<lambda>b. (correctedFaces b, dVfW b))
        (boundFromAbove exMesh3 exControls3 (checkBounding exState7)
           (map (\<lambda>a. 1 - a) (alpha1In exState7)) (complementField exControls3 (dVf exState7))
           (cellIsBounded exState7) (surfaceCellFacesOnProcPatches exState7)) = Some ([0], [1, - 1])"
    by (simp add: example_defs bound_defs)
  have r7: "boundBelow exMesh3 exControls3 exState7 = Some (exState7\<lparr>dVf := [0, - 3 / 10], cellIsBounded := [True],
       surfaceCellFacesOnProcPatches := [[]], nSync := 1, sent := [(0, [0], [0])],
       log := [BoundBelow, Merged, Synced]\<rparr>)"
    by (simp add: example_defs bound_defs combineFluxes_def patchMessage_def)
  note serial = boundBelow_complementary [of exMesh2 exControls2 exState3 "(exState3\<lparr>dVf := [0, 1 / 2], cellIsBounded := [False, True],
       log := [BoundBelow, Merged, Synced]\<rparr>)"]
  note distributed = boundBelow_complementary [of exMesh3 exControls3 exState7 "(exState7\<lparr>dVf := [0, - 3 / 10], cellIsBounded := [True],
       surfaceCellFacesOnProcPatches := [[]], nSync := 1, sent := [(0, [0], [0])],
       log := [BoundBelow, Merged, Synced]\<rparr>)"]
  from serial r have s1: "(\<exists>b D. boundFromAbove exMesh2 exControls2 (checkBounding exState3) (map (\<lambda>a. 1 - a) (alpha1In exState3))
                  (complementField exControls2 (dVf exState3)) (cellIsBounded exState3)
                  (surfaceCellFacesOnProcPatches exState3) = Some b
           \<and> length D = length (dVf exState3)
           \<and> (\<forall>f < length (dVf exState3).
                 D ! f = (if f \<in> set (correctedFaces b)
                          then phi exControls2 ! f * deltaT exControls2 - dVfW b ! f else dVf exState3 ! f))
           \<and> (exState3\<lparr>dVf := [0, 1 / 2], cellIsBounded := [False, True],
       log := [BoundBelow, Merged, Synced]\<rparr>) = syncProcPatches exMesh2 exControls2
                 (exState3\<lparr>dVf := D, cellIsBounded := isBounded b,
                     surfaceCellFacesOnProcPatches := pendingFaces b,
                     log := log exState3 @ [BoundBelow, Merged]\<rparr>)
           \<and> (\<forall>f < length (dVf exState3).
                 (parRun exControls2 \<longrightarrow> f \<notin> fst ` set (receivedPairs exMesh2 exControls2 (nSync exState3))) \<longrightarrow>
                 dVf (exState3\<lparr>dVf := [0, 1 / 2], cellIsBounded := [False, True],
       log := [BoundBelow, Merged, Synced]\<rparr>) ! f = D ! f))"
    by blast
  from serial c p have s3: "\<exists>st'. boundBelow exMesh2 exControls2 exState3 = Some st'
           \<and> portionInvariant exControls2 (dVf st') \<and> capacityInvariant exControls2 (dVf st')"
    by blast
  have l: "length (phi exControls2) = length (dVf exState3)"
    by (simp add: example_defs)
  with serial have "\<forall>f < length (dVf exState3).
         complementField exControls2 (dVf exState3) ! f
           = phi exControls2 ! f * deltaT exControls2 - dVf exState3 ! f"
    by blast
  moreover have "1 < length (dVf exState3)" by (simp add: example_defs)
  ultimately have s2: "complementField exControls2 (dVf exState3) ! 1
         = phi exControls2 ! 1 * deltaT exControls2 - dVf exState3 ! 1"
    by blast
  from distributed r7 have t1: "(\<exists>b D. boundFromAbove exMesh3 exControls3 (checkBounding exState7) (map (\<lambda>a. 1 - a) (alpha1In exState7))
                  (complementField exControls3 (dVf exState7)) (cellIsBounded exState7)
                  (surfaceCellFacesOnProcPatches exState7) = Some b
           \<and> length D = length (dVf exState7)
           \<and> (\<forall>f < length (dVf exState7).
                 D ! f = (if f \<in> set (correctedFaces b)
                          then phi exControls3 ! f * deltaT exControls3 - dVfW b ! f else dVf exState7 ! f))
           \<and> (exState7\<lparr>dVf := [0, - 3 / 10], cellIsBounded := [True],
       surfaceCellFacesOnProcPatches := [[]], nSync := 1, sent := [(0, [0], [0])],
       log := [BoundBelow, Merged, Synced]\<rparr>) = syncProcPatches exMesh3 exControls3
                 (exState7\<lparr>dVf := D, cellIsBounded := isBounded b,
                     surfaceCellFacesOnProcPatches := pendingFaces b,
                     log := log exState7 @ [BoundBelow, Merged]\<rparr>)
           \<and> (\<forall>f < length (dVf exState7).
                 (parRun exControls3 \<longrightarrow> f \<notin> fst ` set (receivedPairs exMesh3 exControls3 (nSync exState7))) \<longrightarrow>
                 dVf (exState7\<lparr>dVf := [0, - 3 / 10], cellIsBounded := [True],
       surfaceCellFacesOnProcPatches := [[]], nSync := 1, sent := [(0, [0], [0])],
       log := [BoundBelow, Merged, Synced]\<rparr>) ! f = D ! f))"
    by blast
  from distributed c7 p7 have t3: "\<exists>st'. boundBelow exMesh3 exControls3 exState7 = Some st'
           \<and> portionInvariant exControls3 (dVf st') \<and> capacityInvariant exControls3 (dVf st')"
    by blast
  show ?thesis
    apply (intro conjI)
    apply (rule c p r s1 s3 l s2 c7 p7 d7 e7 b7 r7 t1 t3)+
    done
qed

text \<open>
  The bound on the magnitude alone is not enough: the transport -1 of a face with
  \<open>phi*dt = 1\<close> is within capacity, the complementary transport 2 is not, and the
  repair leaves -2.
\<close>

theorem boundBelow_capacity_counterexample:
  "capacityInvariant exControls1 (dVf exState1)
   \<and> map_option dVf (boundBelow exMesh1 exControls1 exState1) = Some [- 2]
   \<and> \<not> capacityInvariant exControls1 [- 2]"
  by (simp add: capacityInvariant_def example_defs bound_defs)


section \<open>One turn of the loop and the spec\<close>












section \<open>The bounding candidates\<close>








lemma assignList_nth:
  "c < length xs \<Longrightarrow> assignList n v xs ! c = (if c < n then v else xs ! c)"
  by (simp add: assignList_def)





lemma clearIsoFaceData_fixed:
  assumes "\<not> topoChanging mesh" "c < length (checkBounding st)"
  shows "checkBounding (clearIsoFaceData mesh st) ! c
           = (checkBounding st ! c \<and> \<not> c < checkBoundingSize st)"
  using assms by (simp add: clearIsoFaceData_def Let_def assignList_nth)



lemmas flux_defs = timeIntegratedFlux_def clearIsoFaceData_def cellStep_def faceStep_def
  boundaryFaceStep_def isASurfaceCell_def cutCell_def cellIsCut_def isInternalFace_def
  syncProcPatches_def unitNormal_def vdiv_def vmag_def vzero_def SMALL_def Let_def
  assignList_def resizeList_def



text \<open>
  On a mesh of fixed topology whose lists have never been resized the assignment in
  \<open>clearIsoFaceData\<close> reaches no entry, and flags found set on entry are set
  after the call, whether or not their cells are candidates.
\<close>

lemma flags_of_an_earlier_call:
  "\<not> topoChanging exMesh2 \<and> checkBoundingSize exState6 = 0
   \<and> checkBounding (clearIsoFaceData exMesh2 exState6) = [True, True]
   \<and> checkBounding (timeIntegratedFlux exCutNever exFlux exMesh2 exControls2 exState6) = [True, True]
   \<and> \<not> boundingCandidate exCutNever exMesh2 exControls2 (alpha1In exState6) 1"
  by (simp add: example_defs flux_defs boundingCandidate_def oppositeOf_def numeral_2_eq_2
      less_Suc_eq)


section \<open>The exchange\<close>

text \<open>
  C7. On a distributed run, for each received pair (\<open>remoteFaceId\<close>,
  \<open>remoteValue\<close>) the transport of the corresponding local face is
  \<open>-remoteValue\<close> after the call, whatever it was before, provided no other
  received pair gives the same face a different value; faces no pair names keep their
  value; every pending list is empty after the call. On a run that is not distributed
  the call changes no member of the object.
\<close>

theorem syncProcPatches_semantics:
  "(parRun ctl \<and> unambiguous (receivedPairs mesh ctl (nSync st)) \<longrightarrow>
      (\<forall>p \<in> set (receivedPairs mesh ctl (nSync st)).
         fst p < length (dVf st) \<longrightarrow> dVf (syncProcPatches mesh ctl st) ! fst p = - snd p))
   \<and> (parRun ctl \<longrightarrow>
        length (surfaceCellFacesOnProcPatches (syncProcPatches mesh ctl st))
          = length (surfaceCellFacesOnProcPatches st)
        \<and> (\<forall>pending \<in> set (surfaceCellFacesOnProcPatches (syncProcPatches mesh ctl st)).
              pending = [])
        \<and> (\<forall>a. a \<notin> fst ` set (receivedPairs mesh ctl (nSync st)) \<longrightarrow>
              dVf (syncProcPatches mesh ctl st) ! a = dVf st ! a))
   \<and> (\<not> parRun ctl \<longrightarrow> syncProcPatches mesh ctl st = st\<lparr>log := log st @ [Synced]\<rparr>)"
proof (intro conjI impI ballI allI)
  fix p
  assume "parRun ctl \<and> unambiguous (receivedPairs mesh ctl (nSync st))"
    and "p \<in> set (receivedPairs mesh ctl (nSync st))" and "fst p < length (dVf st)"
  then show "dVf (syncProcPatches mesh ctl st) ! fst p = - snd p"
    using fold_writes_nth [of "fst p" "snd p" "receivedPairs mesh ctl (nSync st)" "dVf st"]
    by (simp add: sync_writes)
next
  assume "parRun ctl"
  then show "length (surfaceCellFacesOnProcPatches (syncProcPatches mesh ctl st))
          = length (surfaceCellFacesOnProcPatches st)"
    by (simp add: syncProcPatches_def)
next
  fix pending
  assume "parRun ctl" "pending \<in> set (surfaceCellFacesOnProcPatches (syncProcPatches mesh ctl st))"
  then show "pending = []" by (auto simp add: syncProcPatches_def)
next
  fix a
  assume "parRun ctl" "a \<notin> fst ` set (receivedPairs mesh ctl (nSync st))"
  then show "dVf (syncProcPatches mesh ctl st) ! a = dVf st ! a"
    by (simp add: sync_writes fold_writes_untouched)
next
  assume "\<not> parRun ctl"
  then show "syncProcPatches mesh ctl st = st\<lparr>log := log st @ [Synced]\<rparr>"
    by (simp add: syncProcPatches_def)
qed

theorem syncProcPatches_semantics_witness:
  "parRun exControls3 \<and> receivedPairs exMesh3 exControls3 (nSync exState5) = [(1, 3 / 10)]
   \<and> unambiguous (receivedPairs exMesh3 exControls3 (nSync exState5))
   \<and> dVf exState5 = [1 / 2, - 1 / 4]
   \<and> dVf (syncProcPatches exMesh3 exControls3 exState5) = [1 / 2, - 3 / 10]
   \<and> surfaceCellFacesOnProcPatches (syncProcPatches exMesh3 exControls3 exState5) = [[]]
   \<and> dVf (syncProcPatches exMesh3 exControls3 exState5) ! 1 = - (3 / 10)
   \<and> \<not> parRun exControls2
   \<and> syncProcPatches exMesh2 exControls2 exState2 = exState2\<lparr>log := log exState2 @ [Synced]\<rparr>"
proof -
  have e: "receivedPairs exMesh3 exControls3 (nSync exState5) = [(1, 3 / 10)]"
    by (simp add: receivedPairs_def example_defs)
  have u: "unambiguous (receivedPairs exMesh3 exControls3 (nSync exState5))"
    by (simp add: e unambiguous_def)
  have p: "parRun exControls3" "\<not> parRun exControls2"
    by (simp_all add: example_defs)
  have l: "fst (1 :: nat, 3 / 10 :: real) < length (dVf exState5)" "dVf exState5 = [1 / 2, - 1 / 4]"
    by (simp_all add: example_defs)
  have r: "dVf (syncProcPatches exMesh3 exControls3 exState5) = [1 / 2, - 3 / 10]"
    "surfaceCellFacesOnProcPatches (syncProcPatches exMesh3 exControls3 exState5) = [[]]"
    by (simp_all add: syncProcPatches_def combineFluxes_def example_defs)
  note sem3 = syncProcPatches_semantics [of exControls3 exMesh3 exState5]
  note sem2 = syncProcPatches_semantics [of exControls2 exMesh2 exState2]
  from sem3 have "parRun exControls3 \<and> unambiguous (receivedPairs exMesh3 exControls3 (nSync exState5)) \<longrightarrow>
      (\<forall>p \<in> set (receivedPairs exMesh3 exControls3 (nSync exState5)).
         fst p < length (dVf exState5) \<longrightarrow> dVf (syncProcPatches exMesh3 exControls3 exState5) ! fst p = - snd p)"
    by (rule conjunct1)
  with p(1) u have "\<forall>p \<in> set (receivedPairs exMesh3 exControls3 (nSync exState5)).
         fst p < length (dVf exState5) \<longrightarrow> dVf (syncProcPatches exMesh3 exControls3 exState5) ! fst p = - snd p"
    by (simp only: simp_thms)
  then have v: "dVf (syncProcPatches exMesh3 exControls3 exState5) ! 1 = - (3 / 10)"
    unfolding e using l(1) by simp
  from sem2 have "\<not> parRun exControls2 \<longrightarrow>
      syncProcPatches exMesh2 exControls2 exState2 = exState2\<lparr>log := log exState2 @ [Synced]\<rparr>"
    by (rule conjunct2 [THEN conjunct2])
  with p(2) have n: "syncProcPatches exMesh2 exControls2 exState2
      = exState2\<lparr>log := log exState2 @ [Synced]\<rparr>"
    by (rule rev_mp)
  show ?thesis
    apply (intro conjI)
    apply (rule p(1) e u l(2) r(1) r(2) v p(2) n)+
    done
qed

end
